theory Spec2Isabelle
  imports Main "HOL-Library.Word" "HOL-Library.Multiset"
begin

section \<open>Post-evacuation cleanup of the G1 young collection\<close>

text \<open>
  A shallow embedding of \<^verbatim>\<open>g1YoungGCPostEvacuateTasks.cpp\<close>: the statistics of
  collection-set freeing, the closure that frees or retains each collection-set region,
  the closure that eagerly reclaims humongous objects, the closure that redirties logged
  cards, and the two constructors that assemble the batched cleanup tasks.

  A \<^verbatim>\<open>HeapRegion*\<close> is the index of the region in the heap's region table (its
  \<^verbatim>\<open>hrm_index()\<close>); the table itself is a field of the heap. Objects that the C++
  code mutates in place are passed in and returned. \<^verbatim>\<open>size_t\<close> is a 64-bit word and
  \<^verbatim>\<open>uint\<close> a 32-bit word, so every counter wraps as it does in the C++.
  Worker ids, region indices and card indices are natural numbers. Timers, JFR events,
  the region printer and logging only report; they are left out, and so are the work
  items recorded with the phase times, except those of the subtask that reclaims
  humongous objects, which show the worker that ran it.
\<close>

subsection \<open>Machine types and errors\<close>

type_synonym size_t = "64 word"
type_synonym uint = "32 word"

text \<open>
  \<^verbatim>\<open>guarantee\<close> aborts the VM in every build, \<^verbatim>\<open>assert\<close> only in a debug build
  (\<^verbatim>\<open>ASSERT\<close> defined). An abort is the left summand; it carries the state reached
  when the check failed, so that a theorem can say what had happened before the abort.
\<close>

datatype vm_error = guarantee_failed | assert_failed

type_synonym 's vm = "(vm_error \<times> 's) + 's"

text \<open>
  Values fixed when the VM starts: the region size in bytes and in words
  (\<^verbatim>\<open>HeapRegion::GrainBytes\<close>, \<^verbatim>\<open>HeapRegion::GrainWords\<close>), whether assertions are
  compiled in, and the flags the task constructors read.
\<close>

record vm_globals =
  GrainBytes :: size_t
  GrainWords :: size_t
  ASSERT :: bool
  COMPILER2_OR_JVMCI :: bool
  UseTLAB :: bool
  ResizeTLAB :: bool

text \<open>
  Modelled from the spec: \<^verbatim>\<open>HeapWordSize\<close>, the bytes of one heap word, is declared outside
  this file; scenario A of the spec divides by 8 (\<open>1024/8\<close>), the value on the 64-bit
  platforms that \<^typ>\<open>size_t\<close> stands for.
\<close>

definition HeapWordSize :: size_t where
  "HeapWordSize = 8"

subsection \<open>Heap regions\<close>

datatype HeapRegionType =
  FreeTag | EdenTag | SurvTag | StartsHumongousTag | ContinuesHumongousTag | OldTag

datatype oop_kind = TypeArrayKlass | ObjArrayKlass | InstanceKlass

datatype HeapRegionSetName = MasterFreeList | OldSet | HumongousSet

text \<open>
  The fields of a region that the cleanup tasks read or write. \<open>obj_at_bottom\<close> is the
  kind of the object that starts at \<^verbatim>\<open>bottom()\<close>; \<open>containing_set\<close> is the region set
  the region is linked into (\<^verbatim>\<open>set_containing_set\<close>), \<open>None\<close> for \<^verbatim>\<open>nullptr\<close>.
\<close>

record HeapRegion =
  region_type :: HeapRegionType
  used :: size_t
  live_bytes :: size_t
  rem_set_occupied :: size_t
  young_index_in_cset :: nat
  surv_words_in_group :: "size_t option"
  obj_at_bottom :: oop_kind
  containing_set :: "HeapRegionSetName option"

definition is_young :: "HeapRegion \<Rightarrow> bool" where
  "is_young r = (region_type r = EdenTag \<or> region_type r = SurvTag)"

definition is_empty :: "HeapRegion \<Rightarrow> bool" where
  "is_empty r = (used r = 0)"

subsection \<open>Statistics of collection-set freeing\<close>

record FreeCSetStats =
  before_used_bytes :: size_t
  after_used_bytes :: size_t
  bytes_allocated_in_old_since_last_gc :: size_t
  failure_used_words :: size_t
  failure_waste_words :: size_t
  rs_length :: size_t
  regions_freed :: uint

definition FreeCSetStats_init :: FreeCSetStats where
  "FreeCSetStats_init =
     \<lparr>before_used_bytes = 0, after_used_bytes = 0,
      bytes_allocated_in_old_since_last_gc = 0,
      failure_used_words = 0, failure_waste_words = 0,
      rs_length = 0, regions_freed = 0\<rparr>"

text \<open>\<^verbatim>\<open>this->merge_stats(other)\<close>: the receiver is the first argument.\<close>

definition merge_stats :: "FreeCSetStats \<Rightarrow> FreeCSetStats \<Rightarrow> FreeCSetStats" where
  "merge_stats s other =
     \<lparr>before_used_bytes = before_used_bytes s + before_used_bytes other,
      after_used_bytes = after_used_bytes s + after_used_bytes other,
      bytes_allocated_in_old_since_last_gc =
        bytes_allocated_in_old_since_last_gc s + bytes_allocated_in_old_since_last_gc other,
      failure_used_words = failure_used_words s + failure_used_words other,
      failure_waste_words = failure_waste_words s + failure_waste_words other,
      rs_length = rs_length s + rs_length other,
      regions_freed = regions_freed s + regions_freed other\<rparr>"

definition account_failed_region ::
  "vm_globals \<Rightarrow> HeapRegion \<Rightarrow> FreeCSetStats \<Rightarrow> FreeCSetStats" where
  "account_failed_region g r s =
     (let used_words = live_bytes r div HeapWordSize;
          s1 = s\<lparr>failure_used_words := failure_used_words s + used_words\<rparr>;
          s2 = s1\<lparr>failure_waste_words := failure_waste_words s1 + (GrainWords g - used_words)\<rparr>;
          s3 = s2\<lparr>after_used_bytes := after_used_bytes s2 + used r\<rparr>
      in if is_young r
         then s3\<lparr>bytes_allocated_in_old_since_last_gc :=
                   bytes_allocated_in_old_since_last_gc s3 + GrainBytes g\<rparr>
         else s3)"

definition account_evacuated_region ::
  "vm_globals \<Rightarrow> HeapRegion \<Rightarrow> FreeCSetStats \<Rightarrow> FreeCSetStats vm" where
  "account_evacuated_region g r s =
     (if ASSERT g \<and> \<not> 0 < used r then Inl (assert_failed, s)
      else Inr (s\<lparr>before_used_bytes := before_used_bytes s + used r,
                  regions_freed := regions_freed s + 1\<rparr>))"

definition account_rs_length :: "HeapRegion \<Rightarrow> FreeCSetStats \<Rightarrow> FreeCSetStats" where
  "account_rs_length r s = s\<lparr>rs_length := rs_length s + rem_set_occupied r\<rparr>"

subsection \<open>The heap and its collaborators\<close>

text \<open>
  Modelled from the spec: \<^verbatim>\<open>G1EvacFailureRegions\<close> is declared outside this file. It is
  the spec's EvacuationFailureSet, the regions of the collection set where an object
  could not be copied, fixed for the rest of the pause; the recovery subtasks are
  scheduled when at least one region failed.
\<close>

record G1EvacFailureRegions =
  regions_failed_evacuation :: "nat list"

definition contains :: "G1EvacFailureRegions \<Rightarrow> nat \<Rightarrow> bool" where
  "contains efr idx = (idx \<in> set (regions_failed_evacuation efr))"

definition num_regions_failed_evacuation :: "G1EvacFailureRegions \<Rightarrow> nat" where
  "num_regions_failed_evacuation efr = length (regions_failed_evacuation efr)"

definition evacuation_failed :: "G1EvacFailureRegions \<Rightarrow> bool" where
  "evacuation_failed efr = (0 < num_regions_failed_evacuation efr)"

datatype CardValue = clean_card_val | dirty_card_val | other_card_val nat

text \<open>
  The work items that the humongous reclamation subtask records with the phase times,
  each for the worker that runs it (lines 271 to 273).
\<close>

datatype GCParPhaseWorkItem =
  EagerlyReclaimNumTotal | EagerlyReclaimNumCandidates | EagerlyReclaimNumReclaimed

text \<open>
  The state of \<^verbatim>\<open>G1CollectedHeap\<close> and of the objects reached through it (policy,
  old-generation allocation statistics, concurrent mark, card table) that the cleanup
  tasks read or write. A region set is its length; a region belongs to the set named
  in its \<open>containing_set\<close>. \<open>old_set_history\<close> lists the insertions into the old set
  in the order in which they happen, each with the owner of \<open>OldSets_lock\<close> at that
  moment, so that a statement can say under which lock a region was added.
  \<open>has_humongous_reclaim_candidates\<close>, \<open>num_humongous_objects\<close> and
  \<open>num_humongous_reclaim_candidates\<close> are what the heap's functions of these names
  return; they are declared outside this file, which only calls them (lines 724, 271
  and 272). \<open>work_items\<close> are the work items recorded with the phase times, by worker
  id.
\<close>

record G1CollectedHeap =
  num_regions :: nat
  region_at :: "nat \<Rightarrow> HeapRegion"
  region_attr_in_cset :: "nat \<Rightarrow> bool"
  humongous_reclaim_candidate :: "nat \<Rightarrow> bool"
  has_humongous_reclaim_candidates :: bool
  num_humongous_objects :: uint
  num_humongous_reclaim_candidates :: uint
  work_items :: "nat \<times> GCParPhaseWorkItem \<Rightarrow> size_t option"
  collection_set :: "nat list"
  young_region_length :: nat
  eden :: "nat set"
  old_set_length :: uint
  old_set_history :: "(nat \<times> nat option) list"
  humongous_set_length :: uint
  OldSets_lock :: "nat option"
  summary_bytes_used :: size_t
  old_gen_allocated_bytes_since_last_gc :: size_t
  policy_rs_length :: size_t
  policy_cset_regions_freed :: nat
  old_failure_used :: size_t
  old_failure_waste :: size_t
  in_concurrent_start_gc :: bool
  sample_collection_set_candidates :: bool
  cm_marked_in_bitmap :: "nat \<Rightarrow> bool"
  cm_eagerly_reclaimed :: "nat list"
  card_table :: "nat \<Rightarrow> CardValue"
  region_of_card :: "nat \<Rightarrow> nat"

record G1EvacInfo =
  info_regions_freed :: uint
  collection_set_used_before :: size_t
  collection_set_used_after :: size_t

definition update_region ::
  "nat \<Rightarrow> (HeapRegion \<Rightarrow> HeapRegion) \<Rightarrow> G1CollectedHeap \<Rightarrow> G1CollectedHeap" where
  "update_region r f h = h\<lparr>region_at := (region_at h)(r := f (region_at h r))\<rparr>"

text \<open>
  Modelled from the spec: \<^verbatim>\<open>HeapRegion::in_collection_set\<close> and
  \<^verbatim>\<open>G1CollectedHeap::is_in_cset\<close> are declared outside this file; both read the region's
  "membership in the current collection set".
\<close>

definition is_in_cset :: "G1CollectedHeap \<Rightarrow> nat \<Rightarrow> bool" where
  "is_in_cset h r = region_attr_in_cset h r"

definition in_collection_set :: "G1CollectedHeap \<Rightarrow> nat \<Rightarrow> bool" where
  "in_collection_set h r = is_in_cset h r"

text \<open>
  Modelled from the spec: the region sets are declared outside this file. The master free
  list is the spec's "global free list", the old set its "old-generation region set".
\<close>

definition is_on_master_free_list :: "G1CollectedHeap \<Rightarrow> nat \<Rightarrow> bool" where
  "is_on_master_free_list h r = (containing_set (region_at h r) = Some MasterFreeList)"

definition is_in_old_set :: "G1CollectedHeap \<Rightarrow> nat \<Rightarrow> bool" where
  "is_in_old_set h r = (containing_set (region_at h r) = Some OldSet)"

text \<open>
  Modelled from the spec: \<^verbatim>\<open>G1CollectedHeap::old_set_add\<close> is declared outside this file:
  "insert it into the old-generation region set under an exclusive lock"; line 563 says
  that the caller needs to hold the lock. The insertion is entered in the history of the
  old set with the owner that the lock has when the insertion happens.
\<close>

definition old_set_add :: "nat \<Rightarrow> G1CollectedHeap \<Rightarrow> G1CollectedHeap" where
  "old_set_add r h =
     (update_region r (\<lambda>hr. hr\<lparr>containing_set := Some OldSet\<rparr>) h)
       \<lparr>old_set_length := old_set_length h + 1,
        old_set_history := old_set_history h @ [(r, OldSets_lock h)]\<rparr>"

text \<open>
  Modelled from the spec: \<^verbatim>\<open>G1CollectedHeap::free_region(hr, free_list)\<close> is declared outside
  this file: "free the region (return it to the global free list, clear its remembered
  set)". The list that receives the region is the second argument. This file passes
  \<^verbatim>\<open>nullptr\<close> at line 542 and asserts at line 607, after the call, that the region is
  not on the master free list. So the region is reset to an empty free region with a
  cleared remembered set, and it is appended to the list argument when there is one.
  Whether freeing also clears the region's mark "in the collection set" is decided
  outside this file; the model leaves the mark as it is, and no statement below says
  what the mark of a freed region is.
\<close>

definition hr_clear :: "HeapRegion \<Rightarrow> HeapRegion" where
  "hr_clear hr = hr\<lparr>region_type := FreeTag, used := 0, rem_set_occupied := 0\<rparr>"

definition free_region ::
  "nat \<Rightarrow> nat list option \<Rightarrow> G1CollectedHeap \<Rightarrow> G1CollectedHeap \<times> nat list option" where
  "free_region r free_list h =
     (update_region r hr_clear h, map_option (\<lambda>l. l @ [r]) free_list)"

text \<open>
  Modelled from the spec: \<^verbatim>\<open>HeapRegion::handle_evacuation_failure\<close> is declared outside this
  file: "a failed region is always retained as old generation" (lines 547 to 549 say the
  same: regions that failed evacuation are always made old).
\<close>

definition handle_evacuation_failure :: "nat \<Rightarrow> G1CollectedHeap \<Rightarrow> G1CollectedHeap" where
  "handle_evacuation_failure r h = update_region r (\<lambda>hr. hr\<lparr>region_type := OldTag\<rparr>) h"

text \<open>
  Modelled from the spec: \<^verbatim>\<open>HeapRegion::record_surv_words_in_group\<close> is declared outside
  this file: "if the region is young, record its post-evacuation surviving-word count".
\<close>

definition record_surv_words_in_group ::
  "nat \<Rightarrow> size_t \<Rightarrow> G1CollectedHeap \<Rightarrow> G1CollectedHeap" where
  "record_surv_words_in_group r words_survived h =
     update_region r (\<lambda>hr. hr\<lparr>surv_words_in_group := Some words_survived\<rparr>) h"

text \<open>
  \<^verbatim>\<open>MutexLocker x(OldSets_lock, ...)\<close> takes the lock where it is declared and gives it
  back at the end of the enclosing block. The lock's owner is a worker id.
\<close>

definition MutexLocker_lock :: "nat \<Rightarrow> G1CollectedHeap \<Rightarrow> G1CollectedHeap" where
  "MutexLocker_lock worker_id h = h\<lparr>OldSets_lock := Some worker_id\<rparr>"

definition MutexLocker_unlock :: "G1CollectedHeap \<Rightarrow> G1CollectedHeap" where
  "MutexLocker_unlock h = h\<lparr>OldSets_lock := None\<rparr>"

text \<open>
  Modelled from the spec: the heap's and the policy's update functions that
  \<^verbatim>\<open>FreeCSetStats::report\<close> and the task's constructor and destructor call are declared
  outside this file: "update heap-wide used-bytes, remembered-set-length policy feedback,
  old-generation allocation tracker, and freed-region counters; clear the transient Eden
  set and the collection-set container".
\<close>

definition decrement_summary_bytes :: "size_t \<Rightarrow> G1CollectedHeap \<Rightarrow> G1CollectedHeap" where
  "decrement_summary_bytes bytes h = h\<lparr>summary_bytes_used := summary_bytes_used h - bytes\<rparr>"

definition add_failure_used_and_waste ::
  "size_t \<Rightarrow> size_t \<Rightarrow> G1CollectedHeap \<Rightarrow> G1CollectedHeap" where
  "add_failure_used_and_waste fu fw h =
     h\<lparr>old_failure_used := old_failure_used h + fu,
        old_failure_waste := old_failure_waste h + fw\<rparr>"

definition add_allocated_bytes_since_last_gc ::
  "size_t \<Rightarrow> G1CollectedHeap \<Rightarrow> G1CollectedHeap" where
  "add_allocated_bytes_since_last_gc bytes h =
     h\<lparr>old_gen_allocated_bytes_since_last_gc :=
          old_gen_allocated_bytes_since_last_gc h + bytes\<rparr>"

definition record_rs_length :: "size_t \<Rightarrow> G1CollectedHeap \<Rightarrow> G1CollectedHeap" where
  "record_rs_length n h = h\<lparr>policy_rs_length := n\<rparr>"

definition cset_regions_freed :: "G1CollectedHeap \<Rightarrow> G1CollectedHeap" where
  "cset_regions_freed h = h\<lparr>policy_cset_regions_freed := Suc (policy_cset_regions_freed h)\<rparr>"

definition clear_eden :: "G1CollectedHeap \<Rightarrow> G1CollectedHeap" where
  "clear_eden h = h\<lparr>eden := {}\<rparr>"

definition clear_collection_set :: "G1CollectedHeap \<Rightarrow> G1CollectedHeap" where
  "clear_collection_set h = h\<lparr>collection_set := [], young_region_length := 0\<rparr>"

definition report ::
  "FreeCSetStats \<Rightarrow> G1CollectedHeap \<times> G1EvacInfo \<Rightarrow> G1CollectedHeap \<times> G1EvacInfo" where
  "report s = (\<lambda>(h, info).
     (let info1 = info\<lparr>info_regions_freed := regions_freed s\<rparr>;
          info2 = info1\<lparr>collection_set_used_before := before_used_bytes s + after_used_bytes s\<rparr>;
          info3 = info2\<lparr>collection_set_used_after :=
                          collection_set_used_after info2 + after_used_bytes s\<rparr>;
          h1 = decrement_summary_bytes (before_used_bytes s) h;
          h2 = add_failure_used_and_waste (failure_used_words s) (failure_waste_words s) h1;
          h3 = add_allocated_bytes_since_last_gc (bytes_allocated_in_old_since_last_gc s) h2;
          h4 = record_rs_length (rs_length s) h3;
          h5 = cset_regions_freed h4
      in (h5, info3)))"

subsection \<open>The closure applied to every region of the collection set\<close>

text \<open>
  The closure's own state is the statistics of its worker; it is passed with the heap.
  \<open>sw\<close> is the array \<^verbatim>\<open>_surviving_young_words\<close>, \<open>efr\<close> the evacuation failure set.
\<close>

type_synonym FreeCSetState = "FreeCSetStats \<times> G1CollectedHeap"

definition assert_tracks_surviving_words :: "G1CollectedHeap \<Rightarrow> nat \<Rightarrow> bool" where
  "assert_tracks_surviving_words h r =
     (young_index_in_cset (region_at h r) \<noteq> 0 \<and>
      young_index_in_cset (region_at h r) \<le> young_region_length h)"

definition handle_evacuated_region ::
  "vm_globals \<Rightarrow> nat \<Rightarrow> FreeCSetState \<Rightarrow> FreeCSetState vm" where
  "handle_evacuated_region g r = (\<lambda>(s, h).
     if ASSERT g \<and> is_empty (region_at h r) then Inl (assert_failed, (s, h))
     else (case account_evacuated_region g (region_at h r) s of
             Inl (e, s') \<Rightarrow> Inl (e, (s', h))
           | Inr s' \<Rightarrow> Inr (s', fst (free_region r None h))))"

definition handle_failed_region ::
  "vm_globals \<Rightarrow> nat \<Rightarrow> nat \<Rightarrow> FreeCSetState \<Rightarrow> FreeCSetState vm" where
  "handle_failed_region g worker_id r = (\<lambda>(s, h).
     (let s1 = account_failed_region g (region_at h r) s
      in if ASSERT g \<and> \<not> in_collection_set h r then Inl (assert_failed, (s1, h))
         else (let h1 = handle_evacuation_failure r h;
                   h2 = MutexLocker_lock worker_id h1;
                   h3 = old_set_add r h2
               in Inr (s1, MutexLocker_unlock h3))))"

definition do_heap_region ::
  "vm_globals \<Rightarrow> G1EvacFailureRegions \<Rightarrow> (nat \<Rightarrow> size_t) \<Rightarrow> nat \<Rightarrow> nat \<Rightarrow>
   FreeCSetState \<Rightarrow> FreeCSetState vm" where
  "do_heap_region g efr sw worker_id r = (\<lambda>(s, h).
     if ASSERT g \<and> \<not> in_collection_set h r then Inl (assert_failed, (s, h))
     else
       (let s1 = account_rs_length (region_at h r) s
        in if is_young (region_at h r) \<and> ASSERT g \<and> \<not> assert_tracks_surviving_words h r
           then Inl (assert_failed, (s1, h))
           else
             (let h1 = (if is_young (region_at h r)
                        then record_surv_words_in_group r
                               (sw (young_index_in_cset (region_at h r))) h
                        else h)
              in (case (if contains efr r
                        then handle_failed_region g worker_id r (s1, h1)
                        else handle_evacuated_region g r (s1, h1)) of
                    Inl e \<Rightarrow> Inl e
                  | Inr (s2, h2) \<Rightarrow>
                      if ASSERT g \<and> is_on_master_free_list h2 r
                      then Inl (assert_failed, (s2, h2))
                      else Inr (s2, h2)))))"

subsection \<open>The task that frees the collection set\<close>

record FreeCollectionSetTask =
  worker_stats :: "FreeCSetStats list"
  active_workers :: nat
  surviving_young_words :: "nat \<Rightarrow> size_t"
  evac_failure_regions :: G1EvacFailureRegions

text \<open>The constructor: it returns the new task and the heap it has changed.\<close>

definition FreeCollectionSetTask_new ::
  "(nat \<Rightarrow> size_t) \<Rightarrow> G1EvacFailureRegions \<Rightarrow> G1CollectedHeap \<Rightarrow>
   FreeCollectionSetTask \<times> G1CollectedHeap" where
  "FreeCollectionSetTask_new sw efr h =
     (\<lparr>worker_stats = [], active_workers = 0,
       surviving_young_words = sw, evac_failure_regions = efr\<rparr>,
      clear_eden h)"

definition set_max_workers :: "nat \<Rightarrow> FreeCollectionSetTask \<Rightarrow> FreeCollectionSetTask" where
  "set_max_workers max_workers t =
     t\<lparr>active_workers := max_workers,
       worker_stats := replicate max_workers FreeCSetStats_init\<rparr>"

text \<open>
  Modelled from the spec: \<^verbatim>\<open>collection_set_par_iterate_all\<close> and the region claimer are
  declared outside this file: "for each region in the collection set (visited by exactly
  one worker, no two workers visit the same region)". What the claiming decides is a
  schedule: the visits \<open>(worker, region)\<close> in the order in which they happen. A visit is
  one application of the closure, with the statistics of the visiting worker; visits of
  different workers interleave region by region. \<open>claims_all\<close> says that a schedule
  visits the regions of the collection set, each once, with worker ids below the number
  of workers.
\<close>

fun par_iterate ::
  "vm_globals \<Rightarrow> G1EvacFailureRegions \<Rightarrow> (nat \<Rightarrow> size_t) \<Rightarrow> (nat \<times> nat) list \<Rightarrow>
   FreeCSetStats list \<times> G1CollectedHeap \<Rightarrow> (FreeCSetStats list \<times> G1CollectedHeap) vm" where
  "par_iterate g efr sw [] st = Inr st"
| "par_iterate g efr sw ((worker_id, r) # rest) (ws, h) =
     (case do_heap_region g efr sw worker_id r (ws ! worker_id, h) of
        Inl (e, (s, h')) \<Rightarrow> Inl (e, (ws[worker_id := s], h'))
      | Inr (s, h') \<Rightarrow> par_iterate g efr sw rest (ws[worker_id := s], h'))"

definition claims_all :: "nat \<Rightarrow> nat list \<Rightarrow> (nat \<times> nat) list \<Rightarrow> bool" where
  "claims_all n cset sched =
     (mset (map snd sched) = mset cset \<and> list_all (\<lambda>v. fst v < n) sched)"

text \<open>
  \<^verbatim>\<open>do_work(worker_id)\<close> of one worker that claims the regions \<open>claimed\<close>, and the
  parallel phase of the task under a schedule.
\<close>

definition FreeCollectionSetTask_do_work ::
  "vm_globals \<Rightarrow> nat \<Rightarrow> nat list \<Rightarrow> FreeCollectionSetTask \<times> G1CollectedHeap \<Rightarrow>
   (FreeCollectionSetTask \<times> G1CollectedHeap) vm" where
  "FreeCollectionSetTask_do_work g worker_id claimed = (\<lambda>(t, h).
     map_sum (\<lambda>(e, (ws, h')). (e, (t\<lparr>worker_stats := ws\<rparr>, h')))
             (\<lambda>(ws, h'). (t\<lparr>worker_stats := ws\<rparr>, h'))
       (par_iterate g (evac_failure_regions t) (surviving_young_words t)
          (map (Pair worker_id) claimed) (worker_stats t, h)))"

definition FreeCollectionSetTask_work ::
  "vm_globals \<Rightarrow> (nat \<times> nat) list \<Rightarrow> FreeCollectionSetTask \<times> G1CollectedHeap \<Rightarrow>
   (FreeCollectionSetTask \<times> G1CollectedHeap) vm" where
  "FreeCollectionSetTask_work g sched = (\<lambda>(t, h).
     map_sum (\<lambda>(e, (ws, h')). (e, (t\<lparr>worker_stats := ws\<rparr>, h')))
             (\<lambda>(ws, h'). (t\<lparr>worker_stats := ws\<rparr>, h'))
       (par_iterate g (evac_failure_regions t) (surviving_young_words t)
          sched (worker_stats t, h)))"

text \<open>The loop of \<^verbatim>\<open>report_statistics\<close> that merges the accounting.\<close>

definition merge_worker_stats :: "FreeCSetStats list \<Rightarrow> nat \<Rightarrow> FreeCSetStats" where
  "merge_worker_stats ws n =
     fold (\<lambda>worker total_stats. merge_stats total_stats (ws ! worker)) [0..<n]
       FreeCSetStats_init"

definition report_statistics ::
  "FreeCollectionSetTask \<Rightarrow> G1CollectedHeap \<times> G1EvacInfo \<Rightarrow> G1CollectedHeap \<times> G1EvacInfo" where
  "report_statistics t st =
     report (merge_worker_stats (worker_stats t) (active_workers t)) st"

text \<open>The destructor; the task is gone afterwards, the heap and the evacuation info stay.\<close>

definition FreeCollectionSetTask_delete ::
  "FreeCollectionSetTask \<Rightarrow> G1CollectedHeap \<times> G1EvacInfo \<Rightarrow> G1CollectedHeap \<times> G1EvacInfo" where
  "FreeCollectionSetTask_delete t st =
     (case report_statistics t st of (h1, info1) \<Rightarrow> (clear_collection_set h1, info1))"

subsection \<open>Eager reclamation of humongous objects\<close>

record G1FreeHumongousRegionClosure =
  humongous_objects_reclaimed :: uint
  humongous_regions_reclaimed :: uint
  freed_bytes :: size_t

definition G1FreeHumongousRegionClosure_init :: G1FreeHumongousRegionClosure where
  "G1FreeHumongousRegionClosure_init =
     \<lparr>humongous_objects_reclaimed = 0, humongous_regions_reclaimed = 0, freed_bytes = 0\<rparr>"

text \<open>
  Modelled from the spec: \<^verbatim>\<open>is_humongous_reclaim_candidate\<close>, the concurrent mark's
  \<^verbatim>\<open>humongous_object_eagerly_reclaimed\<close> and \<^verbatim>\<open>is_marked_in_bitmap\<close>,
  \<^verbatim>\<open>free_humongous_region\<close>, \<^verbatim>\<open>humongous_obj_regions_iterate\<close> and
  \<^verbatim>\<open>heap_region_iterate\<close> are declared outside this file. The spec: a start region
  is "flagged as a reclaim candidate"; on reclaim "notify the marking subsystem the
  object is gone, assert it carries no marking-bitmap bit, free every region spanned by
  the (possibly multi-region) object"; the scan "scans every heap region once". The
  regions an object spans are its start region and the continuation regions that follow
  it. As for \<open>free_region\<close>, the list that receives a freed region is an argument, and
  line 215 passes \<^verbatim>\<open>nullptr\<close>.
\<close>

definition is_humongous_reclaim_candidate :: "G1CollectedHeap \<Rightarrow> nat \<Rightarrow> bool" where
  "is_humongous_reclaim_candidate h region_idx = humongous_reclaim_candidate h region_idx"

definition humongous_object_eagerly_reclaimed :: "nat \<Rightarrow> G1CollectedHeap \<Rightarrow> G1CollectedHeap" where
  "humongous_object_eagerly_reclaimed r h = h\<lparr>cm_eagerly_reclaimed := cm_eagerly_reclaimed h @ [r]\<rparr>"

definition is_marked_in_bitmap :: "G1CollectedHeap \<Rightarrow> nat \<Rightarrow> bool" where
  "is_marked_in_bitmap h r = cm_marked_in_bitmap h r"

definition set_containing_set ::
  "nat \<Rightarrow> HeapRegionSetName option \<Rightarrow> G1CollectedHeap \<Rightarrow> G1CollectedHeap" where
  "set_containing_set r s h = update_region r (\<lambda>hr. hr\<lparr>containing_set := s\<rparr>) h"

definition free_humongous_region ::
  "nat \<Rightarrow> nat list option \<Rightarrow> G1CollectedHeap \<Rightarrow> G1CollectedHeap \<times> nat list option" where
  "free_humongous_region r free_list h = free_region r free_list h"

definition humongous_obj_regions :: "G1CollectedHeap \<Rightarrow> nat \<Rightarrow> nat list" where
  "humongous_obj_regions h start =
     start # takeWhile (\<lambda>i. region_type (region_at h i) = ContinuesHumongousTag)
               [Suc start..<num_regions h]"

definition humongous_obj_regions_iterate ::
  "nat \<Rightarrow> (nat \<Rightarrow> 's \<times> G1CollectedHeap \<Rightarrow> 's \<times> G1CollectedHeap) \<Rightarrow>
   's \<times> G1CollectedHeap \<Rightarrow> 's \<times> G1CollectedHeap" where
  "humongous_obj_regions_iterate start f st = fold f (humongous_obj_regions (snd st) start) st"

text \<open>The closure \<^verbatim>\<open>G1FreeHumongousRegionClosure\<close>, lines 173 to 222.\<close>

type_synonym FreeHumongousState = "G1FreeHumongousRegionClosure \<times> G1CollectedHeap"

definition is_reclaimable :: "G1CollectedHeap \<Rightarrow> nat \<Rightarrow> bool" where
  "is_reclaimable h region_idx = is_humongous_reclaim_candidate h region_idx"

text \<open>The lambda \<^verbatim>\<open>free_humongous_region\<close> of lines 211 to 217.\<close>

definition free_humongous_region_lambda :: "nat \<Rightarrow> FreeHumongousState \<Rightarrow> FreeHumongousState" where
  "free_humongous_region_lambda r = (\<lambda>(cl, h).
     (let cl1 = cl\<lparr>freed_bytes := freed_bytes cl + used (region_at h r)\<rparr>;
          h1 = set_containing_set r None h;
          cl2 = cl1\<lparr>humongous_regions_reclaimed := humongous_regions_reclaimed cl1 + 1\<rparr>
      in (cl2, fst (free_humongous_region r None h1))))"

text \<open>
  The closure returns \<^verbatim>\<open>false\<close> on every path, which tells the iteration to go on; the
  model returns the state only.
\<close>

definition do_heap_region_index ::
  "vm_globals \<Rightarrow> nat \<Rightarrow> FreeHumongousState \<Rightarrow> FreeHumongousState vm" where
  "do_heap_region_index g region_index = (\<lambda>(cl, h).
     if \<not> is_reclaimable h region_index then Inr (cl, h)
     else if obj_at_bottom (region_at h region_index) \<noteq> TypeArrayKlass
     then Inl (guarantee_failed, (cl, h))
     else
       (let h1 = humongous_object_eagerly_reclaimed region_index h
        in if ASSERT g \<and> is_marked_in_bitmap h1 region_index
           then Inl (assert_failed, (cl, h1))
           else
             (let cl1 = cl\<lparr>humongous_objects_reclaimed := humongous_objects_reclaimed cl + 1\<rparr>
              in Inr (humongous_obj_regions_iterate region_index
                        free_humongous_region_lambda (cl1, h1)))))"

fun heap_region_iterate_over ::
  "vm_globals \<Rightarrow> nat list \<Rightarrow> FreeHumongousState \<Rightarrow> FreeHumongousState vm" where
  "heap_region_iterate_over g [] st = Inr st"
| "heap_region_iterate_over g (i # rest) st =
     (case do_heap_region_index g i st of
        Inl e \<Rightarrow> Inl e
      | Inr st' \<Rightarrow> heap_region_iterate_over g rest st')"

definition heap_region_iterate :: "vm_globals \<Rightarrow> FreeHumongousState \<Rightarrow> FreeHumongousState vm" where
  "heap_region_iterate g st = heap_region_iterate_over g [0..<num_regions (snd st)] st"

text \<open>
  The subtask \<^verbatim>\<open>EagerlyReclaimHumongousObjectsTask\<close>. Modelled from the spec:
  \<^verbatim>\<open>remove_from_old_gen_sets\<close> is declared outside this file: "decrement heap-wide
  old-generation region counts and summary byte counters by the totals accumulated".
\<close>

record EagerlyReclaimHumongousObjectsTask =
  task_humongous_regions_reclaimed :: uint
  task_bytes_freed :: size_t

definition EagerlyReclaimHumongousObjectsTask_new :: EagerlyReclaimHumongousObjectsTask where
  "EagerlyReclaimHumongousObjectsTask_new =
     \<lparr>task_humongous_regions_reclaimed = 0, task_bytes_freed = 0\<rparr>"

definition remove_from_old_gen_sets :: "uint \<Rightarrow> uint \<Rightarrow> G1CollectedHeap \<Rightarrow> G1CollectedHeap" where
  "remove_from_old_gen_sets old_regions_removed humongous_regions_removed h =
     h\<lparr>old_set_length := old_set_length h - old_regions_removed,
        humongous_set_length := humongous_set_length h - humongous_regions_removed\<rparr>"

text \<open>
  \<^verbatim>\<open>record_work_item(worker_id, index, count)\<close> of the subtask: the count goes to the
  phase times under the worker id and the index.
\<close>

definition record_work_item ::
  "nat \<Rightarrow> GCParPhaseWorkItem \<Rightarrow> size_t \<Rightarrow> G1CollectedHeap \<Rightarrow> G1CollectedHeap" where
  "record_work_item worker_id index item_count h =
     h\<lparr>work_items := (work_items h)((worker_id, index) := Some item_count)\<rparr>"

definition EagerlyReclaimHumongousObjectsTask_do_work ::
  "vm_globals \<Rightarrow> nat \<Rightarrow> EagerlyReclaimHumongousObjectsTask \<times> G1CollectedHeap \<Rightarrow>
   (EagerlyReclaimHumongousObjectsTask \<times> G1CollectedHeap) vm" where
  "EagerlyReclaimHumongousObjectsTask_do_work g worker_id = (\<lambda>(t, h).
     (case heap_region_iterate g (G1FreeHumongousRegionClosure_init, h) of
        Inl (e, (cl, h')) \<Rightarrow> Inl (e, (t, h'))
      | Inr (cl, h') \<Rightarrow>
          (let h1 = record_work_item worker_id EagerlyReclaimNumTotal
                      (ucast (num_humongous_objects h')) h';
               h2 = record_work_item worker_id EagerlyReclaimNumCandidates
                      (ucast (num_humongous_reclaim_candidates h1)) h1;
               h3 = record_work_item worker_id EagerlyReclaimNumReclaimed
                      (ucast (humongous_objects_reclaimed cl)) h2
           in Inr (t\<lparr>task_humongous_regions_reclaimed := humongous_regions_reclaimed cl,
                      task_bytes_freed := freed_bytes cl\<rparr>, h3))))"

definition EagerlyReclaimHumongousObjectsTask_delete ::
  "EagerlyReclaimHumongousObjectsTask \<Rightarrow> G1CollectedHeap \<Rightarrow> G1CollectedHeap" where
  "EagerlyReclaimHumongousObjectsTask_delete t h =
     decrement_summary_bytes (task_bytes_freed t)
       (remove_from_old_gen_sets 0 (task_humongous_regions_reclaimed t) h)"

subsection \<open>Redirtying of logged cards\<close>

text \<open>
  A \<^verbatim>\<open>CardValue*\<close> is the index of the card in the card table. \<open>region_of_card\<close>, a
  field of the heap, stands for \<^verbatim>\<open>heap_region_containing(addr_for(card_ptr))\<close>, whose two
  functions are declared outside this file.
\<close>

record RedirtyLoggedCardTableEntryClosure =
  num_dirtied :: size_t

definition RedirtyLoggedCardTableEntryClosure_new :: RedirtyLoggedCardTableEntryClosure where
  "RedirtyLoggedCardTableEntryClosure_new = \<lparr>num_dirtied = 0\<rparr>"

definition region_for_card :: "G1CollectedHeap \<Rightarrow> nat \<Rightarrow> nat" where
  "region_for_card h card_ptr = region_of_card h card_ptr"

definition will_become_free :: "G1CollectedHeap \<Rightarrow> G1EvacFailureRegions \<Rightarrow> nat \<Rightarrow> bool" where
  "will_become_free h efr hr = (is_in_cset h hr \<and> \<not> contains efr hr)"

definition do_card_ptr ::
  "G1EvacFailureRegions \<Rightarrow> nat \<Rightarrow> nat \<Rightarrow>
   RedirtyLoggedCardTableEntryClosure \<times> G1CollectedHeap \<Rightarrow>
   RedirtyLoggedCardTableEntryClosure \<times> G1CollectedHeap" where
  "do_card_ptr efr card_ptr worker_id = (\<lambda>(cl, h).
     (let hr = region_for_card h card_ptr
      in if \<not> will_become_free h efr hr
         then (cl\<lparr>num_dirtied := num_dirtied cl + 1\<rparr>,
               h\<lparr>card_table := (card_table h)(card_ptr := dirty_card_val)\<rparr>)
         else (cl, h)))"

text \<open>
  Modelled from the spec: \<^verbatim>\<open>BufferNode\<close> and \<^verbatim>\<open>apply_to_buffer\<close> are declared outside
  this file: a buffer node holds "a batch of card addresses logged during evacuation", and
  the closure is applied "for each logged card address". The logged cards of a node are
  the entries of its buffer from the node's index up to the buffer capacity.
\<close>

record BufferNode =
  node_index :: nat
  node_buffer :: "nat list"

definition apply_to_buffer ::
  "G1EvacFailureRegions \<Rightarrow> BufferNode \<Rightarrow> nat \<Rightarrow> nat \<Rightarrow>
   RedirtyLoggedCardTableEntryClosure \<times> G1CollectedHeap \<Rightarrow>
   RedirtyLoggedCardTableEntryClosure \<times> G1CollectedHeap" where
  "apply_to_buffer efr node buffer_capacity worker_id st =
     fold (\<lambda>i. do_card_ptr efr (node_buffer node ! i) worker_id)
       [node_index node..<buffer_capacity] st"

subsection \<open>The two batched tasks\<close>

text \<open>
  A subtask object, named after the \<^verbatim>\<open>new\<close> expression that creates it. The subtask
  that \<^verbatim>\<open>create_cleanup_after_scan_heap_roots_task()\<close> returns is created outside this
  file. Modelled from the spec: \<^verbatim>\<open>G1BatchedTask\<close> is declared outside this file: it is "an
  ordered list of purely-serial subtasks plus a set of subtasks eligible for parallel
  execution".
\<close>

datatype G1AbstractSubTask =
    new_MergePssTask
  | new_RecalculateUsedTask bool
  | new_SampleCollectionSetCandidatesTask
  | cleanup_after_scan_heap_roots_task
  | new_RestoreRetainedRegionsTask
  | new_UpdateDerivedPointersTask
  | new_EagerlyReclaimHumongousObjectsTask
  | new_RestorePreservedMarksTask
  | new_ClearRetainedRegionBitmaps
  | new_RedirtyLoggedCardsTask
  | new_ResizeTLABsTask
  | new_FreeCollectionSetTask

record G1BatchedTask =
  task_name :: string
  serial_tasks :: "G1AbstractSubTask list"
  parallel_tasks :: "G1AbstractSubTask list"

definition G1BatchedTask_new :: "string \<Rightarrow> G1BatchedTask" where
  "G1BatchedTask_new n = \<lparr>task_name = n, serial_tasks = [], parallel_tasks = []\<rparr>"

definition add_serial_task :: "G1AbstractSubTask \<Rightarrow> G1BatchedTask \<Rightarrow> G1BatchedTask" where
  "add_serial_task task b = b\<lparr>serial_tasks := serial_tasks b @ [task]\<rparr>"

definition add_parallel_task :: "G1AbstractSubTask \<Rightarrow> G1BatchedTask \<Rightarrow> G1BatchedTask" where
  "add_parallel_task task b = b\<lparr>parallel_tasks := parallel_tasks b @ [task]\<rparr>"

text \<open>
  Modelled from the spec: the heap's \<^verbatim>\<open>should_sample_collection_set_candidates\<close> is
  declared outside this file: the policy's "should sample candidates" decision.
\<close>

definition should_sample_collection_set_candidates :: "G1CollectedHeap \<Rightarrow> bool" where
  "should_sample_collection_set_candidates h = sample_collection_set_candidates h"

definition G1PostEvacuateCollectionSetCleanupTask1 ::
  "G1EvacFailureRegions \<Rightarrow> G1CollectedHeap \<Rightarrow> G1BatchedTask" where
  "G1PostEvacuateCollectionSetCleanupTask1 efr h =
     (let b0 = G1BatchedTask_new ''Post Evacuate Cleanup 1'';
          evacuation_failed = evacuation_failed efr;
          b1 = add_serial_task new_MergePssTask b0;
          b2 = add_serial_task (new_RecalculateUsedTask evacuation_failed) b1;
          b3 = (if should_sample_collection_set_candidates h
                then add_serial_task new_SampleCollectionSetCandidatesTask b2 else b2);
          b4 = add_parallel_task cleanup_after_scan_heap_roots_task b3
      in if evacuation_failed then add_parallel_task new_RestoreRetainedRegionsTask b4 else b4)"

text \<open>
  The second constructor returns the batched task and the heap: creating the
  \<^verbatim>\<open>FreeCollectionSetTask\<close> runs its constructor, which changes the heap. The assertion
  in the constructor of \<^verbatim>\<open>ClearRetainedRegionBitmaps\<close> (line 358) repeats the guard of
  line 731 and cannot fail there.
\<close>

definition G1PostEvacuateCollectionSetCleanupTask2 ::
  "vm_globals \<Rightarrow> (nat \<Rightarrow> size_t) \<Rightarrow> G1EvacFailureRegions \<Rightarrow> G1CollectedHeap \<Rightarrow>
   G1BatchedTask \<times> G1CollectedHeap" where
  "G1PostEvacuateCollectionSetCleanupTask2 g sw efr h =
     (let b0 = G1BatchedTask_new ''Post Evacuate Cleanup 2'';
          b1 = (if COMPILER2_OR_JVMCI g then add_serial_task new_UpdateDerivedPointersTask b0
                else b0);
          b2 = (if has_humongous_reclaim_candidates h
                then add_serial_task new_EagerlyReclaimHumongousObjectsTask b1 else b1);
          b3 = (if evacuation_failed efr
                then (let b = add_parallel_task new_RestorePreservedMarksTask b2
                      in if \<not> in_concurrent_start_gc h
                         then add_parallel_task new_ClearRetainedRegionBitmaps b else b)
                else b2);
          b4 = add_parallel_task new_RedirtyLoggedCardsTask b3;
          b5 = (if UseTLAB g \<and> ResizeTLAB g then add_parallel_task new_ResizeTLABsTask b4
                else b4);
          h1 = snd (FreeCollectionSetTask_new sw efr h)
      in (add_parallel_task new_FreeCollectionSetTask b5, h1))"

text \<open>
  Modelled from the spec: the run of a batched task is declared outside this file. The
  spec, 4.1: "execute every serial subtask, in registration order, on a single thread;
  each subtask's work function is invoked with worker-index 0". \<open>subtask_do_work\<close> is
  the virtual call \<^verbatim>\<open>task->do_work(worker_id)\<close>: for the subtask that reclaims
  humongous objects it is the \<^verbatim>\<open>do_work\<close> of lines 265 to 277; the work of a serial
  subtask whose \<^verbatim>\<open>do_work\<close> only calls functions declared outside this file is the
  parameter \<open>ext\<close>.
\<close>

type_synonym SerialState = "EagerlyReclaimHumongousObjectsTask \<times> G1CollectedHeap"

definition subtask_do_work ::
  "vm_globals \<Rightarrow> (G1AbstractSubTask \<Rightarrow> nat \<Rightarrow> G1CollectedHeap \<Rightarrow> G1CollectedHeap) \<Rightarrow>
   G1AbstractSubTask \<Rightarrow> nat \<Rightarrow> SerialState \<Rightarrow> SerialState vm" where
  "subtask_do_work g ext task worker_id = (\<lambda>(t, h).
     if task = new_EagerlyReclaimHumongousObjectsTask
     then EagerlyReclaimHumongousObjectsTask_do_work g worker_id (t, h)
     else Inr (t, ext task worker_id h))"

fun run_serial_tasks ::
  "vm_globals \<Rightarrow> (G1AbstractSubTask \<Rightarrow> nat \<Rightarrow> G1CollectedHeap \<Rightarrow> G1CollectedHeap) \<Rightarrow>
   G1AbstractSubTask list \<Rightarrow> SerialState \<Rightarrow> SerialState vm" where
  "run_serial_tasks g ext [] st = Inr st"
| "run_serial_tasks g ext (task # rest) st =
     (case subtask_do_work g ext task 0 st of
        Inl e \<Rightarrow> Inl e
      | Inr st' \<Rightarrow> run_serial_tasks g ext rest st')"

section \<open>Notions used in the statements\<close>

text \<open>
  The state that a run reached, whether it returned or aborted, and the counters of the
  heap and of the policy that only \<^verbatim>\<open>FreeCSetStats::report\<close> writes.
\<close>

definition state_reached :: "'s vm \<Rightarrow> 's" where
  "state_reached res = (case res of Inl (e, s) \<Rightarrow> s | Inr s \<Rightarrow> s)"

definition shared_counters ::
  "G1CollectedHeap \<Rightarrow> size_t \<times> size_t \<times> size_t \<times> size_t \<times> size_t \<times> nat" where
  "shared_counters h =
     (summary_bytes_used h, old_gen_allocated_bytes_since_last_gc h, policy_rs_length h,
      old_failure_used h, old_failure_waste h, policy_cset_regions_freed h)"

text \<open>
  The checks that a debug build makes when the closure visits region \<open>r\<close>: the
  region is in the collection set (lines 591 and 553), a young region has a tracked
  young index (line 531), a region that did not fail is not empty (lines 538 and 478)
  and is not on the master free list once it is freed (line 607). The lemmas
  \<open>do_heap_region_ok\<close> and \<open>do_heap_region_abort\<close> below show that the closure aborts
  in a debug build exactly when these checks fail.
\<close>

definition cset_region_checks ::
  "G1EvacFailureRegions \<Rightarrow> G1CollectedHeap \<Rightarrow> nat \<Rightarrow> bool" where
  "cset_region_checks efr h r =
     (in_collection_set h r \<and>
      (if is_young (region_at h r) then assert_tracks_surviving_words h r else True) \<and>
      (if contains efr r then True
       else used (region_at h r) \<noteq> 0 \<and> containing_set (region_at h r) \<noteq> Some MasterFreeList))"

text \<open>
  What one visit adds to the statistics of the visiting worker, the region after the
  visit, and the heap after the visit, in closed form; then the same for the visits of a
  list of regions.
\<close>

definition region_contribution ::
  "vm_globals \<Rightarrow> G1EvacFailureRegions \<Rightarrow> nat \<Rightarrow> HeapRegion \<Rightarrow> FreeCSetStats" where
  "region_contribution g efr r hr =
     (if contains efr r
      then account_failed_region g hr (account_rs_length hr FreeCSetStats_init)
      else (account_rs_length hr FreeCSetStats_init)
             \<lparr>before_used_bytes := used hr, regions_freed := 1\<rparr>)"

definition region_after ::
  "G1EvacFailureRegions \<Rightarrow> (nat \<Rightarrow> size_t) \<Rightarrow> nat \<Rightarrow> HeapRegion \<Rightarrow> HeapRegion" where
  "region_after efr sw r hr =
     (let hr1 = (if is_young hr
                 then hr\<lparr>surv_words_in_group := Some (sw (young_index_in_cset hr))\<rparr>
                 else hr)
      in if contains efr r
         then hr1\<lparr>region_type := OldTag, containing_set := Some OldSet\<rparr>
         else hr_clear hr1)"

definition heap_after ::
  "G1EvacFailureRegions \<Rightarrow> (nat \<Rightarrow> size_t) \<Rightarrow> nat \<Rightarrow> nat \<Rightarrow> G1CollectedHeap \<Rightarrow>
   G1CollectedHeap" where
  "heap_after efr sw w r h =
     (if contains efr r
      then h\<lparr>region_at := (region_at h)(r := region_after efr sw r (region_at h r)),
             old_set_length := old_set_length h + 1,
             old_set_history := old_set_history h @ [(r, Some w)],
             OldSets_lock := None\<rparr>
      else h\<lparr>region_at := (region_at h)(r := region_after efr sw r (region_at h r))\<rparr>)"

definition heap_after_all ::
  "G1EvacFailureRegions \<Rightarrow> (nat \<Rightarrow> size_t) \<Rightarrow> (nat \<times> nat) list \<Rightarrow> G1CollectedHeap \<Rightarrow>
   G1CollectedHeap" where
  "heap_after_all efr sw sched h = fold (\<lambda>v. heap_after efr sw (fst v) (snd v)) sched h"

definition contributions ::
  "vm_globals \<Rightarrow> G1EvacFailureRegions \<Rightarrow> G1CollectedHeap \<Rightarrow> nat list \<Rightarrow> FreeCSetStats \<Rightarrow> FreeCSetStats" where
  "contributions g efr h rs a =
     fold (\<lambda>r t. merge_stats t (region_contribution g efr r (region_at h r))) rs a"

text \<open>
  The statistics that \<^verbatim>\<open>report_statistics\<close> merges at teardown when the task is
  constructed, given \<open>n\<close> workers and run under a schedule; \<open>None\<close> when the run aborts.
\<close>

definition merged_after_work ::
  "vm_globals \<Rightarrow> nat \<Rightarrow> (nat \<times> nat) list \<Rightarrow> (nat \<Rightarrow> size_t) \<Rightarrow> G1EvacFailureRegions \<Rightarrow>
   G1CollectedHeap \<Rightarrow> FreeCSetStats option" where
  "merged_after_work g n sched sw efr h =
     (case FreeCollectionSetTask_new sw efr h of (t, h1) \<Rightarrow>
        (case FreeCollectionSetTask_work g sched (set_max_workers n t, h1) of
           Inl _ \<Rightarrow> None
         | Inr (t', h') \<Rightarrow> Some (merge_worker_stats (worker_stats t') (active_workers t'))))"

text \<open>
  A region of a reclaimed humongous object; what the humongous scan reads and never
  writes; the cards of a buffer node, and those among a list of cards whose region is
  not about to be freed.
\<close>

definition reclaimed_region :: "HeapRegion \<Rightarrow> HeapRegion" where
  "reclaimed_region hr = hr_clear (hr\<lparr>containing_set := None\<rparr>)"

definition scan_inputs ::
  "G1CollectedHeap \<Rightarrow> (nat \<Rightarrow> bool) \<times> (nat \<Rightarrow> oop_kind) \<times> nat" where
  "scan_inputs h =
     (humongous_reclaim_candidate h, (\<lambda>r. obj_at_bottom (region_at h r)), num_regions h)"

definition logged_cards :: "BufferNode \<Rightarrow> nat \<Rightarrow> nat list" where
  "logged_cards node cap = map (nth (node_buffer node)) [node_index node..<cap]"

definition retained_cards :: "G1CollectedHeap \<Rightarrow> G1EvacFailureRegions \<Rightarrow> nat list \<Rightarrow> nat list" where
  "retained_cards h efr cards =
     filter (\<lambda>c. \<not> will_become_free h efr (region_for_card h c)) cards"

section \<open>Example states\<close>

text \<open>
  Scenario A of the spec: the collection set holds region 1, evacuated, with 4096 used
  bytes, and region 2, which failed evacuation, with 1024 live bytes; a region has 4096
  words. Two workers free the collection set; worker 1 visits region 2 first, then
  worker 0 visits region 1.
\<close>

definition scenarioA_globals :: vm_globals where
  "scenarioA_globals =
     \<lparr>GrainBytes = 32768, GrainWords = 4096, ASSERT = True,
      COMPILER2_OR_JVMCI = True, UseTLAB = True, ResizeTLAB = True\<rparr>"

definition scenarioA_R2 :: HeapRegion where
  "scenarioA_R2 =
     \<lparr>region_type = EdenTag, used = 32768, live_bytes = 1024, rem_set_occupied = 3,
      young_index_in_cset = 2, surv_words_in_group = None,
      obj_at_bottom = InstanceKlass, containing_set = None\<rparr>"

definition scenarioA_R1 :: HeapRegion where
  "scenarioA_R1 =
     \<lparr>region_type = EdenTag, used = 4096, live_bytes = 0, rem_set_occupied = 5,
      young_index_in_cset = 1, surv_words_in_group = None,
      obj_at_bottom = InstanceKlass, containing_set = None\<rparr>"

definition unused_region :: HeapRegion where
  "unused_region =
     \<lparr>region_type = FreeTag, used = 0, live_bytes = 0, rem_set_occupied = 0,
      young_index_in_cset = 0, surv_words_in_group = None,
      obj_at_bottom = InstanceKlass, containing_set = Some MasterFreeList\<rparr>"

definition scenarioA_heap :: G1CollectedHeap where
  "scenarioA_heap =
     \<lparr>num_regions = 3,
      region_at = (\<lambda>i. if i = 1 then scenarioA_R1 else if i = 2 then scenarioA_R2 else unused_region),
      region_attr_in_cset = (\<lambda>i. i = 1 \<or> i = 2),
      humongous_reclaim_candidate = (\<lambda>i. False),
      has_humongous_reclaim_candidates = False,
      num_humongous_objects = 0,
      num_humongous_reclaim_candidates = 0,
      work_items = (\<lambda>k. None),
      collection_set = [1, 2],
      young_region_length = 2,
      eden = {1, 2},
      old_set_length = 0,
      old_set_history = [],
      humongous_set_length = 0,
      OldSets_lock = None,
      summary_bytes_used = 36864,
      old_gen_allocated_bytes_since_last_gc = 0,
      policy_rs_length = 0,
      policy_cset_regions_freed = 0,
      old_failure_used = 0,
      old_failure_waste = 0,
      in_concurrent_start_gc = False,
      sample_collection_set_candidates = False,
      cm_marked_in_bitmap = (\<lambda>i. False),
      cm_eagerly_reclaimed = [],
      card_table = (\<lambda>c. clean_card_val),
      region_of_card = (\<lambda>c. c div 4)\<rparr>"

definition scenarioA_efr :: G1EvacFailureRegions where
  "scenarioA_efr = \<lparr>regions_failed_evacuation = [2]\<rparr>"

definition scenarioA_task :: FreeCollectionSetTask where
  "scenarioA_task =
     set_max_workers 2 (fst (FreeCollectionSetTask_new (\<lambda>i. 0) scenarioA_efr scenarioA_heap))"

definition scenarioA_sched :: "(nat \<times> nat) list" where
  "scenarioA_sched = [(1, 2), (0, 1)]"

definition scenarioA_result :: "(FreeCollectionSetTask \<times> G1CollectedHeap) vm" where
  "scenarioA_result =
     FreeCollectionSetTask_work scenarioA_globals scenarioA_sched
       (scenarioA_task, snd (FreeCollectionSetTask_new (\<lambda>i. 0) scenarioA_efr scenarioA_heap))"

definition scenarioA_merged :: FreeCSetStats where
  "scenarioA_merged =
     \<lparr>before_used_bytes = 4096, after_used_bytes = 32768,
      bytes_allocated_in_old_since_last_gc = 32768,
      failure_used_words = 128, failure_waste_words = 3968,
      rs_length = 8, regions_freed = 1\<rparr>"

definition G1EvacInfo_init :: G1EvacInfo where
  "G1EvacInfo_init =
     \<lparr>info_regions_freed = 0, collection_set_used_before = 0, collection_set_used_after = 0\<rparr>"

text \<open>
  Scenario B of the spec: a humongous type array that spans regions 0 and 1 and is
  flagged as a reclaim candidate, and a humongous object array in region 2 that is not
  flagged; the heap reports two humongous objects and one reclaim candidate. Then a heap
  whose only region holds an object array and is flagged.
\<close>

definition humongous_region :: "HeapRegionType \<Rightarrow> size_t \<Rightarrow> oop_kind \<Rightarrow> HeapRegion" where
  "humongous_region ty u k =
     \<lparr>region_type = ty, used = u, live_bytes = u, rem_set_occupied = 0,
      young_index_in_cset = 0, surv_words_in_group = None,
      obj_at_bottom = k, containing_set = Some HumongousSet\<rparr>"

definition empty_heap :: G1CollectedHeap where
  "empty_heap =
     \<lparr>num_regions = 0,
      region_at = (\<lambda>i. humongous_region FreeTag 0 InstanceKlass),
      region_attr_in_cset = (\<lambda>i. False),
      humongous_reclaim_candidate = (\<lambda>i. False),
      has_humongous_reclaim_candidates = False,
      num_humongous_objects = 0,
      num_humongous_reclaim_candidates = 0,
      work_items = (\<lambda>k. None),
      collection_set = [],
      young_region_length = 0,
      eden = {},
      old_set_length = 0,
      old_set_history = [],
      humongous_set_length = 0,
      OldSets_lock = None,
      summary_bytes_used = 0,
      old_gen_allocated_bytes_since_last_gc = 0,
      policy_rs_length = 0,
      policy_cset_regions_freed = 0,
      old_failure_used = 0,
      old_failure_waste = 0,
      in_concurrent_start_gc = False,
      sample_collection_set_candidates = False,
      cm_marked_in_bitmap = (\<lambda>i. False),
      cm_eagerly_reclaimed = [],
      card_table = (\<lambda>c. clean_card_val),
      region_of_card = (\<lambda>c. c)\<rparr>"

definition scenarioB_heap :: G1CollectedHeap where
  "scenarioB_heap =
     empty_heap
       \<lparr>num_regions := 3,
        region_at := (\<lambda>i. if i = 0 then humongous_region StartsHumongousTag 100 TypeArrayKlass
                          else if i = 1 then humongous_region ContinuesHumongousTag 50 TypeArrayKlass
                          else humongous_region StartsHumongousTag 70 ObjArrayKlass),
        humongous_reclaim_candidate := (\<lambda>i. i = 0),
        has_humongous_reclaim_candidates := True,
        num_humongous_objects := 2,
        num_humongous_reclaim_candidates := 1,
        humongous_set_length := 3\<rparr>"

definition scenarioB_result :: "FreeHumongousState vm" where
  "scenarioB_result =
     do_heap_region_index scenarioA_globals 0 (G1FreeHumongousRegionClosure_init, scenarioB_heap)"

definition flagged_objArray_heap :: G1CollectedHeap where
  "flagged_objArray_heap =
     empty_heap
       \<lparr>num_regions := 1,
        region_at := (\<lambda>i. humongous_region StartsHumongousTag 70 ObjArrayKlass),
        humongous_reclaim_candidate := (\<lambda>i. i = 0),
        humongous_set_length := 1\<rparr>"

text \<open>
  Scenario C of the spec: a buffer node that logs the cards 3, 14 and 25, ten cards to a
  region. Region 0 is in the collection set and was evacuated, region 1 is in the
  collection set and failed evacuation, region 2 is not in the collection set.
\<close>

definition scenarioC_heap :: G1CollectedHeap where
  "scenarioC_heap =
     empty_heap
       \<lparr>num_regions := 3,
        region_attr_in_cset := (\<lambda>i. i = 0 \<or> i = 1),
        collection_set := [0, 1],
        region_of_card := (\<lambda>c. c div 10)\<rparr>"

definition scenarioC_efr :: G1EvacFailureRegions where
  "scenarioC_efr = \<lparr>regions_failed_evacuation = [1]\<rparr>"

definition scenarioC_node :: BufferNode where
  "scenarioC_node = \<lparr>node_index = 1, node_buffer = [99, 3, 14, 25]\<rparr>"

text \<open>
  Scenario D of the spec: no region failed evacuation.
\<close>

definition no_failures :: G1EvacFailureRegions where
  "no_failures = \<lparr>regions_failed_evacuation = []\<rparr>"

text \<open>
  The serial subtasks of the second batch run on the heap of scenario B, where the
  serial subtasks other than the humongous reclamation do nothing: once with the batch
  constructed from that heap, which reports humongous reclaim candidates, and once with
  the batch constructed from a heap that reports none.
\<close>

definition no_external_work :: "G1AbstractSubTask \<Rightarrow> nat \<Rightarrow> G1CollectedHeap \<Rightarrow> G1CollectedHeap" where
  "no_external_work task worker_id h = h"

definition scenarioB_run :: "SerialState vm" where
  "scenarioB_run =
     run_serial_tasks scenarioA_globals no_external_work
       (serial_tasks (fst (G1PostEvacuateCollectionSetCleanupTask2 scenarioA_globals
                             (\<lambda>i. 0) no_failures scenarioB_heap)))
       (EagerlyReclaimHumongousObjectsTask_new, scenarioB_heap)"

definition scenarioB_run_unreported :: "SerialState vm" where
  "scenarioB_run_unreported =
     run_serial_tasks scenarioA_globals no_external_work
       (serial_tasks (fst (G1PostEvacuateCollectionSetCleanupTask2 scenarioA_globals
                             (\<lambda>i. 0) no_failures
                             (scenarioB_heap\<lparr>has_humongous_reclaim_candidates := False\<rparr>))))
       (EagerlyReclaimHumongousObjectsTask_new, scenarioB_heap)"

section \<open>Properties\<close>

subsection \<open>Accounting of a failed region\<close>

text \<open>
  C3. Accounting a collection-set region as failed changes the statistics by exactly
  this much: failure-used-words grows by the region's live bytes divided by the heap word
  size, failure-waste-words by \<open>GrainWords\<close> minus that count, after-used bytes by the
  region's used bytes, bytes-allocated-in-old by \<open>GrainBytes\<close> when the region is young
  and by nothing otherwise; the three remaining counters keep their values. For the
  failed region of scenario A (1024 live bytes, 4096 words) that is 128 used words and
  \<open>4096 - 128\<close> wasted words.
\<close>

theorem account_failed_region_exact:
  "failure_used_words (account_failed_region g r s)
     = failure_used_words s + live_bytes r div HeapWordSize
   \<and> failure_waste_words (account_failed_region g r s)
     = failure_waste_words s + (GrainWords g - live_bytes r div HeapWordSize)
   \<and> after_used_bytes (account_failed_region g r s) = after_used_bytes s + used r
   \<and> bytes_allocated_in_old_since_last_gc (account_failed_region g r s)
     = bytes_allocated_in_old_since_last_gc s + (if is_young r then GrainBytes g else 0)
   \<and> before_used_bytes (account_failed_region g r s) = before_used_bytes s
   \<and> rs_length (account_failed_region g r s) = rs_length s
   \<and> regions_freed (account_failed_region g r s) = regions_freed s
   \<and> failure_used_words (account_failed_region scenarioA_globals scenarioA_R2 FreeCSetStats_init)
     = 128
   \<and> failure_waste_words (account_failed_region scenarioA_globals scenarioA_R2 FreeCSetStats_init)
     = GrainWords scenarioA_globals - 128"
  by (simp add: account_failed_region_def Let_def HeapWordSize_def scenarioA_globals_def
      scenarioA_R2_def FreeCSetStats_init_def)

subsection \<open>The closure on one region, and a schedule of visits\<close>

lemma merge_stats_assoc:
  "merge_stats (merge_stats a b) c = merge_stats a (merge_stats b c)"
  by (simp add: merge_stats_def add.assoc)

lemma merge_stats_commute: "merge_stats a b = merge_stats b a"
  by (simp add: merge_stats_def add.commute)

lemma merge_stats_right_commute:
  "merge_stats (merge_stats a b) c = merge_stats (merge_stats a c) b"
  by (simp add: merge_stats_def add.commute add.left_commute)

lemma merge_stats_init [simp]:
  "merge_stats FreeCSetStats_init a = a" "merge_stats a FreeCSetStats_init = a"
  by (simp_all add: merge_stats_def FreeCSetStats_init_def)

lemma handle_failed_region_eq:
  "handle_failed_region g w r (s, h) =
     (if ASSERT g \<and> \<not> in_collection_set h r
      then Inl (assert_failed, (account_failed_region g (region_at h r) s, h))
      else Inr (account_failed_region g (region_at h r) s,
                h\<lparr>region_at := (region_at h)
                      (r := (region_at h r)\<lparr>region_type := OldTag, containing_set := Some OldSet\<rparr>),
                   old_set_length := old_set_length h + 1,
                   old_set_history := old_set_history h @ [(r, Some w)],
                   OldSets_lock := None\<rparr>))"
  by (simp add: handle_failed_region_def Let_def handle_evacuation_failure_def
      MutexLocker_lock_def old_set_add_def MutexLocker_unlock_def update_region_def)

lemma handle_evacuated_region_eq:
  "handle_evacuated_region g r (s, h) =
     (if ASSERT g \<and> used (region_at h r) = 0 then Inl (assert_failed, (s, h))
      else Inr (s\<lparr>before_used_bytes := before_used_bytes s + used (region_at h r),
                  regions_freed := regions_freed s + 1\<rparr>,
                h\<lparr>region_at := (region_at h)(r := hr_clear (region_at h r))\<rparr>))"
  by (simp add: handle_evacuated_region_def account_evacuated_region_def is_empty_def
      free_region_def update_region_def word_neq_0_conv)

lemma account_as_merge:
  "account_rs_length hr s = merge_stats s (account_rs_length hr FreeCSetStats_init)"
  "account_failed_region g hr (merge_stats s c) = merge_stats s (account_failed_region g hr c)"
  "(merge_stats s c)\<lparr>before_used_bytes := before_used_bytes (merge_stats s c) + u,
                     regions_freed := regions_freed (merge_stats s c) + 1\<rparr>
     = merge_stats s (c\<lparr>before_used_bytes := before_used_bytes c + u,
                        regions_freed := regions_freed c + 1\<rparr>)"
  by (simp_all add: account_rs_length_def account_failed_region_def merge_stats_def
      FreeCSetStats_init_def Let_def add.assoc)

text \<open>
  A visit returns when the debug checks hold or are not compiled in, and it aborts when
  they are compiled in and one fails.
\<close>

lemma do_heap_region_ok:
  assumes "ASSERT g \<Longrightarrow> cset_region_checks efr h r"
  shows "do_heap_region g efr sw w r (s, h) =
           Inr (merge_stats s (region_contribution g efr r (region_at h r)), heap_after efr sw w r h)"
proof -
  have rs: "account_rs_length (region_at h r) s
              = merge_stats s (account_rs_length (region_at h r) FreeCSetStats_init)"
    by (rule account_as_merge)
  have init: "before_used_bytes (account_rs_length hr FreeCSetStats_init) = 0"
    "regions_freed (account_rs_length hr FreeCSetStats_init) = 0" for hr
    by (simp_all add: account_rs_length_def FreeCSetStats_init_def)
  have acc: "account_failed_region g (hr\<lparr>surv_words_in_group := x\<rparr>) c = account_failed_region g hr c"
    for hr x c
    by (simp add: account_failed_region_def is_young_def)
  have ev: "(account_rs_length hr FreeCSetStats_init)\<lparr>before_used_bytes := u, regions_freed := 1\<rparr>
            = (account_rs_length hr FreeCSetStats_init)
                \<lparr>before_used_bytes := before_used_bytes (account_rs_length hr FreeCSetStats_init) + u,
                 regions_freed := regions_freed (account_rs_length hr FreeCSetStats_init) + 1\<rparr>"
    for hr u
    by (simp add: init)
  show ?thesis
  proof (cases "contains efr r")
    case True
    then show ?thesis
      using assms
      by (cases "ASSERT g")
         (simp_all add: do_heap_region_def rs handle_failed_region_eq cset_region_checks_def Let_def
          in_collection_set_def is_in_cset_def is_on_master_free_list_def
          record_surv_words_in_group_def update_region_def account_as_merge(2) acc
          region_contribution_def heap_after_def region_after_def)
  next
    case False
    then show ?thesis
      using assms
      by (cases "ASSERT g")
         (simp_all add: do_heap_region_def rs handle_evacuated_region_eq cset_region_checks_def Let_def
          in_collection_set_def is_in_cset_def is_on_master_free_list_def
          record_surv_words_in_group_def update_region_def account_as_merge(3)
          region_contribution_def heap_after_def region_after_def ev hr_clear_def)
  qed
qed

lemma do_heap_region_abort:
  assumes "ASSERT g" "\<not> cset_region_checks efr h r"
  shows "isl (do_heap_region g efr sw w r (s, h))"
proof (cases "contains efr r")
  case True
  then show ?thesis
    using assms
    by (simp add: do_heap_region_def handle_failed_region_eq cset_region_checks_def Let_def
        in_collection_set_def is_in_cset_def record_surv_words_in_group_def update_region_def
        assert_tracks_surviving_words_def split: if_splits)
next
  case False
  then show ?thesis
    using assms
    by (auto simp: do_heap_region_def handle_evacuated_region_eq cset_region_checks_def Let_def
        in_collection_set_def is_in_cset_def record_surv_words_in_group_def update_region_def
        assert_tracks_surviving_words_def is_on_master_free_list_def hr_clear_def
        split: if_splits)
qed

lemma fold_merge_shift:
  "fold (\<lambda>w t. merge_stats t (f w)) xs (merge_stats a c) =
   merge_stats (fold (\<lambda>w t. merge_stats t (f w)) xs a) c"
  by (induction xs arbitrary: a) (simp_all add: merge_stats_right_commute[of _ c])

lemma merge_worker_stats_list:
  assumes "n = length ws"
  shows "merge_worker_stats ws n = fold (\<lambda>s t. merge_stats t s) ws FreeCSetStats_init"
proof -
  have "fold (\<lambda>s t. merge_stats t s) ws FreeCSetStats_init =
        fold (\<lambda>s t. merge_stats t s) (map (nth ws) [0..<length ws]) FreeCSetStats_init"
    by (simp add: map_nth)
  also have "\<dots> = fold ((\<lambda>s t. merge_stats t s) \<circ> nth ws) [0..<length ws] FreeCSetStats_init"
    by (simp only: fold_map)
  finally show ?thesis
    using assms by (simp add: merge_worker_stats_def comp_def)
qed

lemma fold_merge_update:
  "w < length ws \<Longrightarrow>
   fold (\<lambda>s t. merge_stats t s) (ws[w := merge_stats (ws ! w) c]) a =
   merge_stats (fold (\<lambda>s t. merge_stats t s) ws a) c"
proof (induction ws arbitrary: w a)
  case Nil
  then show ?case by simp
next
  case (Cons x xs)
  show ?case
  proof (cases w)
    case 0
    have "fold (\<lambda>s t. merge_stats t s) xs (merge_stats a (merge_stats x c)) =
          fold (\<lambda>s t. merge_stats t s) xs (merge_stats (merge_stats a x) c)"
      by (simp add: merge_stats_assoc)
    then show ?thesis
      using 0 fold_merge_shift[of "\<lambda>s. s" xs "merge_stats a x" c] by simp
  next
    case (Suc k)
    then show ?thesis using Cons by simp
  qed
qed

lemma merge_worker_stats_update:
  "w < length ws \<Longrightarrow>
   merge_worker_stats (ws[w := merge_stats (ws ! w) c]) (length ws) =
   merge_stats (merge_worker_stats ws (length ws)) c"
  by (simp add: merge_worker_stats_list fold_merge_update)

lemma heap_after_frame:
  "r' \<noteq> r \<Longrightarrow> region_at (heap_after efr sw w r h) r' = region_at h r'"
  "region_attr_in_cset (heap_after efr sw w r h) = region_attr_in_cset h"
  "young_region_length (heap_after efr sw w r h) = young_region_length h"
  "collection_set (heap_after efr sw w r h) = collection_set h"
  by (simp_all add: heap_after_def)

lemma cset_region_checks_frame:
  "r' \<noteq> r \<Longrightarrow> cset_region_checks efr (heap_after efr sw w r h) r' = cset_region_checks efr h r'"
  by (simp add: cset_region_checks_def heap_after_frame in_collection_set_def is_in_cset_def
      assert_tracks_surviving_words_def)

lemma par_iterate_ok:
  assumes "distinct (map snd sched)" "list_all (\<lambda>v. fst v < length ws) sched"
    and "ASSERT g \<Longrightarrow> list_all (\<lambda>v. cset_region_checks efr h (snd v)) sched"
  shows "\<exists>ws'. par_iterate g efr sw sched (ws, h) = Inr (ws', heap_after_all efr sw sched h)
           \<and> length ws' = length ws
           \<and> merge_worker_stats ws' (length ws)
             = contributions g efr h (map snd sched) (merge_worker_stats ws (length ws))"
  using assms
proof (induction sched arbitrary: ws h)
  case Nil
  then show ?case by (simp add: heap_after_all_def contributions_def)
next
  case (Cons v sched)
  obtain w r where v: "v = (w, r)" by (cases v)
  let ?c = "region_contribution g efr r (region_at h r)"
  let ?ws1 = "ws[w := merge_stats (ws ! w) ?c]"
  let ?h1 = "heap_after efr sw w r h"
  have w: "w < length ws" using Cons.prems(2) v by simp
  have step: "do_heap_region g efr sw w r (ws ! w, h) = Inr (merge_stats (ws ! w) ?c, ?h1)"
    using Cons.prems(3) v by (intro do_heap_region_ok) simp
  have notin: "r \<notin> snd ` set sched" using Cons.prems(1) v by simp
  have d: "distinct (map snd sched)" using Cons.prems(1) by simp
  have l: "list_all (\<lambda>v. fst v < length ?ws1) sched" using Cons.prems(2) by simp
  have c: "ASSERT g \<Longrightarrow> list_all (\<lambda>v. cset_region_checks efr ?h1 (snd v)) sched"
  proof -
    assume "ASSERT g"
    then have "list_all (\<lambda>v. cset_region_checks efr h (snd v)) sched"
      using Cons.prems(3) by simp
    then have all: "\<forall>v\<in>set sched. cset_region_checks efr h (snd v)"
      by (simp add: list_all_iff)
    show ?thesis
      unfolding list_all_iff
    proof
      fix v' assume v': "v' \<in> set sched"
      then have "snd v' \<noteq> r" using notin by auto
      then show "cset_region_checks efr ?h1 (snd v')"
        using all v' by (simp add: cset_region_checks_frame)
    qed
  qed
  from Cons.IH[OF d l c] obtain ws' where
    ih: "par_iterate g efr sw sched (?ws1, ?h1) = Inr (ws', heap_after_all efr sw sched ?h1)"
      "length ws' = length ?ws1"
      "merge_worker_stats ws' (length ?ws1)
         = contributions g efr ?h1 (map snd sched) (merge_worker_stats ?ws1 (length ?ws1))"
    by blast
  have same: "contributions g efr ?h1 (map snd sched) a = contributions g efr h (map snd sched) a" for a
    unfolding contributions_def
  proof (rule fold_cong)
    fix x assume "x \<in> set (map snd sched)"
    then have "x \<noteq> r" using notin by auto
    then show "(\<lambda>t. merge_stats t (region_contribution g efr x (region_at ?h1 x))) =
               (\<lambda>t. merge_stats t (region_contribution g efr x (region_at h x)))"
      by (simp add: heap_after_frame)
  qed simp_all
  show ?case
    using ih w step same
    by (simp add: v heap_after_all_def contributions_def merge_worker_stats_update)
qed

lemma par_iterate_abort:
  assumes "distinct (map snd sched)" "ASSERT g"
    and "\<not> list_all (\<lambda>v. cset_region_checks efr h (snd v)) sched"
  shows "isl (par_iterate g efr sw sched (ws, h))"
  using assms
proof (induction sched arbitrary: ws h)
  case Nil
  then show ?case by simp
next
  case (Cons v sched)
  obtain w r where v: "v = (w, r)" by (cases v)
  show ?case
  proof (cases "cset_region_checks efr h r")
    case False
    then have "isl (do_heap_region g efr sw w r (ws ! w, h))"
      using Cons.prems(2) by (intro do_heap_region_abort)
    then show ?thesis
      by (auto simp: v isl_def split: sum.splits prod.splits)
  next
    case True
    let ?c = "region_contribution g efr r (region_at h r)"
    let ?h1 = "heap_after efr sw w r h"
    have step: "do_heap_region g efr sw w r (ws ! w, h) = Inr (merge_stats (ws ! w) ?c, ?h1)"
      using True by (intro do_heap_region_ok)
    have notin: "r \<notin> snd ` set sched" using Cons.prems(1) v by simp
    obtain v' where v': "v' \<in> set sched" "\<not> cset_region_checks efr h (snd v')"
      using Cons.prems(3) True v by (auto simp: list_all_iff)
    then have "snd v' \<noteq> r" using notin by auto
    then have "\<not> cset_region_checks efr ?h1 (snd v')"
      using v' by (simp add: cset_region_checks_frame)
    then have "\<not> list_all (\<lambda>v. cset_region_checks efr ?h1 (snd v)) sched"
      using v' by (auto simp: list_all_iff)
    moreover have "distinct (map snd sched)" using Cons.prems(1) by simp
    ultimately have "isl (par_iterate g efr sw sched (ws[w := merge_stats (ws ! w) ?c], ?h1))"
      using Cons.IH Cons.prems(2) by blast
    then show ?thesis by (simp add: v step)
  qed
qed

lemma contributions_mset:
  assumes "mset rs = mset rs'"
  shows "contributions g efr h rs a = contributions g efr h rs' a"
proof -
  have "fold (\<lambda>r t. merge_stats t (region_contribution g efr r (region_at h r))) rs =
        fold (\<lambda>r t. merge_stats t (region_contribution g efr r (region_at h r))) rs'"
    by (rule fold_multiset_equiv) (auto simp: assms fun_eq_iff merge_stats_right_commute)
  then show ?thesis by (simp add: contributions_def)
qed

lemma heap_after_all_region:
  "distinct (map snd sched) \<Longrightarrow>
   region_at (heap_after_all efr sw sched h) r =
     (if r \<in> snd ` set sched then region_after efr sw r (region_at h r) else region_at h r)"
proof (induction sched arbitrary: h)
  case Nil
  then show ?case by (simp add: heap_after_all_def)
next
  case (Cons v vs)
  obtain w x where v: "v = (w, x)" by (cases v)
  have ih: "region_at (heap_after_all efr sw vs (heap_after efr sw w x h)) r =
     (if r \<in> snd ` set vs then region_after efr sw r (region_at (heap_after efr sw w x h) r)
      else region_at (heap_after efr sw w x h) r)"
    using Cons by simp
  have fold: "heap_after_all efr sw ((w, x) # vs) h
                = heap_after_all efr sw vs (heap_after efr sw w x h)"
    by (simp add: heap_after_all_def)
  have at_x: "region_at (heap_after efr sw w x h) x = region_after efr sw x (region_at h x)"
    by (simp add: heap_after_def)
  show ?case
    unfolding v fold
  proof (cases "r = x")
    case True
    then have "r \<notin> snd ` set vs" using Cons.prems v by simp
    then show "region_at (heap_after_all efr sw vs (heap_after efr sw w x h)) r =
      (if r \<in> snd ` set ((w, x) # vs) then region_after efr sw r (region_at h r)
       else region_at h r)"
      using True ih by (simp add: at_x)
  next
    case False
    then show "region_at (heap_after_all efr sw vs (heap_after efr sw w x h)) r =
      (if r \<in> snd ` set ((w, x) # vs) then region_after efr sw r (region_at h r)
       else region_at h r)"
      using ih by (simp add: heap_after_frame)
  qed
qed

lemma heap_after_all_frame:
  "region_attr_in_cset (heap_after_all efr sw sched h) = region_attr_in_cset h"
  "collection_set (heap_after_all efr sw sched h) = collection_set h"
  "eden (heap_after_all efr sw sched h) = eden h"
  unfolding heap_after_all_def
  by (induction sched arbitrary: h; simp add: heap_after_def)+

lemma heap_after_all_history:
  "old_set_history (heap_after_all efr sw sched h) =
     old_set_history h
     @ map (\<lambda>v. (snd v, Some (fst v))) (filter (\<lambda>v. contains efr (snd v)) sched)"
  unfolding heap_after_all_def
  by (induction sched arbitrary: h) (simp_all add: heap_after_def)

lemma heap_after_all_lock:
  "OldSets_lock (heap_after_all efr sw sched h) =
     (if list_ex (\<lambda>v. contains efr (snd v)) sched then None else OldSets_lock h)"
  unfolding heap_after_all_def
proof (induction sched arbitrary: h rule: rev_induct)
  case Nil
  then show ?case by simp
next
  case (snoc v vs)
  then show ?case by (simp add: heap_after_def)
qed

lemma do_heap_region_frame:
  "shared_counters (snd (state_reached (do_heap_region g efr sw w r (s, h)))) = shared_counters h
   \<and> eden (snd (state_reached (do_heap_region g efr sw w r (s, h)))) = eden h
   \<and> collection_set (snd (state_reached (do_heap_region g efr sw w r (s, h)))) = collection_set h"
  by (cases "contains efr r")
     (simp_all add: do_heap_region_def handle_failed_region_eq handle_evacuated_region_eq
      state_reached_def Let_def record_surv_words_in_group_def update_region_def
      shared_counters_def)

lemma par_iterate_frame:
  "shared_counters (snd (state_reached (par_iterate g efr sw sched (ws, h)))) = shared_counters h
   \<and> eden (snd (state_reached (par_iterate g efr sw sched (ws, h)))) = eden h
   \<and> collection_set (snd (state_reached (par_iterate g efr sw sched (ws, h)))) = collection_set h"
proof (induction sched arbitrary: ws h)
  case Nil
  then show ?case by (simp add: state_reached_def)
next
  case (Cons v sched)
  obtain w r where v: "v = (w, r)" by (cases v)
  define res where "res = do_heap_region g efr sw w r (ws ! w, h)"
  have fr: "shared_counters (snd (state_reached res)) = shared_counters h"
    "eden (snd (state_reached res)) = eden h"
    "collection_set (snd (state_reached res)) = collection_set h"
    using do_heap_region_frame[of g efr sw w r "ws ! w" h] by (simp_all add: res_def)
  show ?case
  proof (cases res)
    case (Inl a)
    obtain e s h1 where a: "a = (e, (s, h1))" by (cases a) auto
    have "par_iterate g efr sw (v # sched) (ws, h) = Inl (e, (ws[w := s], h1))"
      using Inl by (simp add: v a res_def[symmetric])
    moreover have "state_reached res = (s, h1)"
      by (simp add: Inl a state_reached_def)
    ultimately show ?thesis
      using fr by (simp add: state_reached_def)
  next
    case (Inr b)
    obtain s h1 where b: "b = (s, h1)" by (cases b)
    have "par_iterate g efr sw (v # sched) (ws, h) = par_iterate g efr sw sched (ws[w := s], h1)"
      using Inr by (simp add: v b res_def[symmetric])
    moreover have "state_reached res = (s, h1)"
      by (simp add: Inr b state_reached_def)
    ultimately show ?thesis
      using fr Cons.IH[of "ws[w := s]" h1] by simp
  qed
qed

lemma claims_all_distinct:
  assumes "distinct cset" "claims_all n cset sched"
  shows "distinct (map snd sched)" "set (map snd sched) = set cset"
    "list_all (\<lambda>v. fst v < n) sched"
proof -
  have m: "mset (map snd sched) = mset cset"
    using assms(2) by (simp add: claims_all_def)
  show "distinct (map snd sched)"
    using m assms(1) by (metis mset_eq_imp_distinct_iff)
  show "set (map snd sched) = set cset"
    using m by (metis set_mset_mset)
  show "list_all (\<lambda>v. fst v < n) sched"
    using assms(2) by (simp add: claims_all_def)
qed

lemma FreeCollectionSetTask_work_ok:
  assumes "distinct (map snd sched)"
    and "list_all (\<lambda>v. fst v < length (worker_stats t)) sched"
    and "ASSERT g \<Longrightarrow>
           list_all (\<lambda>v. cset_region_checks (evac_failure_regions t) h (snd v)) sched"
  shows "\<exists>ws'. FreeCollectionSetTask_work g sched (t, h) =
            Inr (t\<lparr>worker_stats := ws'\<rparr>,
                 heap_after_all (evac_failure_regions t) (surviving_young_words t) sched h)
          \<and> length ws' = length (worker_stats t)
          \<and> merge_worker_stats ws' (length (worker_stats t))
             = contributions g (evac_failure_regions t) h (map snd sched)
                 (merge_worker_stats (worker_stats t) (length (worker_stats t)))"
proof -
  from par_iterate_ok[OF assms(1,2,3), where sw = "surviving_young_words t"]
  obtain ws' where
    "par_iterate g (evac_failure_regions t) (surviving_young_words t) sched (worker_stats t, h) =
       Inr (ws', heap_after_all (evac_failure_regions t) (surviving_young_words t) sched h)"
    "length ws' = length (worker_stats t)"
    "merge_worker_stats ws' (length (worker_stats t))
       = contributions g (evac_failure_regions t) h (map snd sched)
           (merge_worker_stats (worker_stats t) (length (worker_stats t)))"
    by blast
  then show ?thesis
    by (intro exI[of _ ws']) (simp add: FreeCollectionSetTask_work_def)
qed

lemma FreeCollectionSetTask_work_abort:
  assumes "distinct (map snd sched)" "ASSERT g"
    and "\<not> list_all (\<lambda>v. cset_region_checks (evac_failure_regions t) h (snd v)) sched"
  shows "isl (FreeCollectionSetTask_work g sched (t, h))"
  using par_iterate_abort[OF assms, where sw = "surviving_young_words t" and ws = "worker_stats t"]
  by (auto simp: FreeCollectionSetTask_work_def isl_def)

lemma FreeCollectionSetTask_work_frame:
  "shared_counters (snd (state_reached (FreeCollectionSetTask_work g sched (t, h)))) = shared_counters h
   \<and> eden (snd (state_reached (FreeCollectionSetTask_work g sched (t, h)))) = eden h
   \<and> collection_set (snd (state_reached (FreeCollectionSetTask_work g sched (t, h)))) = collection_set h"
proof -
  define res where
    "res = par_iterate g (evac_failure_regions t) (surviving_young_words t) sched (worker_stats t, h)"
  have "snd (state_reached (FreeCollectionSetTask_work g sched (t, h))) = snd (state_reached res)"
    by (cases res) (auto simp: FreeCollectionSetTask_work_def state_reached_def res_def[symmetric])
  then show ?thesis
    using par_iterate_frame[of g "evac_failure_regions t" "surviving_young_words t" sched
        "worker_stats t" h]
    by (simp add: res_def)
qed

lemma FreeCollectionSetTask_delete_eq:
  "FreeCollectionSetTask_delete t (h, info) =
     (let m = merge_worker_stats (worker_stats t) (active_workers t)
      in (h\<lparr>summary_bytes_used := summary_bytes_used h - before_used_bytes m,
             old_failure_used := old_failure_used h + failure_used_words m,
             old_failure_waste := old_failure_waste h + failure_waste_words m,
             old_gen_allocated_bytes_since_last_gc :=
               old_gen_allocated_bytes_since_last_gc h + bytes_allocated_in_old_since_last_gc m,
             policy_rs_length := rs_length m,
             policy_cset_regions_freed := Suc (policy_cset_regions_freed h),
             collection_set := [], young_region_length := 0\<rparr>,
          info\<lparr>info_regions_freed := regions_freed m,
               collection_set_used_before := before_used_bytes m + after_used_bytes m,
               collection_set_used_after := collection_set_used_after info + after_used_bytes m\<rparr>))"
  by (simp add: FreeCollectionSetTask_delete_def report_statistics_def report_def Let_def
      decrement_summary_bytes_def add_failure_used_and_waste_def
      add_allocated_bytes_since_last_gc_def record_rs_length_def cset_regions_freed_def
      clear_collection_set_def)

lemma FreeCollectionSetTask_do_work_eq:
  "FreeCollectionSetTask_do_work g worker_id claimed =
     FreeCollectionSetTask_work g (map (Pair worker_id) claimed)"
  by (simp add: FreeCollectionSetTask_do_work_def FreeCollectionSetTask_work_def fun_eq_iff)

lemma merge_worker_stats_replicate:
  "merge_worker_stats (replicate n FreeCSetStats_init) n = FreeCSetStats_init"
proof -
  have "fold (\<lambda>s t. merge_stats t s) (replicate k FreeCSetStats_init) a = a" for k a
    by (induction k) simp_all
  then show ?thesis by (simp add: merge_worker_stats_list)
qed

lemma merged_after_work_eq:
  assumes "distinct (map snd sched)" "list_all (\<lambda>v. fst v < n) sched"
  shows "merged_after_work g n sched sw efr h =
     (if ASSERT g \<and> \<not> list_all (\<lambda>r. cset_region_checks efr h r) (map snd sched) then None
      else Some (contributions g efr h (map snd sched) FreeCSetStats_init))"
proof -
  define t where "t = set_max_workers n (fst (FreeCollectionSetTask_new sw efr h))"
  define h1 where "h1 = clear_eden h"
  have t: "evac_failure_regions t = efr" "surviving_young_words t = sw"
    "worker_stats t = replicate n FreeCSetStats_init" "active_workers t = n"
    by (simp_all add: t_def set_max_workers_def FreeCollectionSetTask_new_def)
  have m: "merged_after_work g n sched sw efr h =
     (case FreeCollectionSetTask_work g sched (t, h1) of
           Inl _ \<Rightarrow> None
         | Inr (t', h') \<Rightarrow> Some (merge_worker_stats (worker_stats t') (active_workers t')))"
    by (simp add: merged_after_work_def t_def h1_def FreeCollectionSetTask_new_def)
  have chk: "cset_region_checks efr h1 r = cset_region_checks efr h r" for r
    by (simp add: h1_def clear_eden_def cset_region_checks_def in_collection_set_def
        is_in_cset_def assert_tracks_surviving_words_def)
  have con: "contributions g efr h1 rs a = contributions g efr h rs a" for rs a
    by (simp add: h1_def clear_eden_def contributions_def)
  show ?thesis
  proof (cases "ASSERT g \<and> \<not> list_all (\<lambda>r. cset_region_checks efr h r) (map snd sched)")
    case True
    then have "\<not> list_all (\<lambda>v. cset_region_checks (evac_failure_regions t) h1 (snd v)) sched"
      by (simp add: t chk list_all_iff)
    then have "isl (FreeCollectionSetTask_work g sched (t, h1))"
      using True assms(1) by (intro FreeCollectionSetTask_work_abort) simp_all
    then show ?thesis
      using True by (auto simp: m isl_def)
  next
    case False
    then have ok: "ASSERT g \<Longrightarrow>
        list_all (\<lambda>v. cset_region_checks (evac_failure_regions t) h1 (snd v)) sched"
      by (simp add: t chk list_all_iff)
    have l: "list_all (\<lambda>v. fst v < length (worker_stats t)) sched"
      using assms(2) by (simp add: t)
    from FreeCollectionSetTask_work_ok[OF assms(1) l ok]
    obtain ws' where w:
      "FreeCollectionSetTask_work g sched (t, h1) =
         Inr (t\<lparr>worker_stats := ws'\<rparr>,
              heap_after_all (evac_failure_regions t) (surviving_young_words t) sched h1)"
      "merge_worker_stats ws' (length (worker_stats t))
         = contributions g (evac_failure_regions t) h1 (map snd sched)
             (merge_worker_stats (worker_stats t) (length (worker_stats t)))"
      by blast
    show ?thesis
      using False w(2) by (simp add: m w(1) t con merge_worker_stats_replicate)
  qed
qed

lemma merged_after_work_permutation:
  assumes "distinct (collection_set h)" and "claims_all n (collection_set h) sched"
  shows "merged_after_work g n sched sw efr h
           = merged_after_work g 1 (map (Pair 0) (collection_set h)) sw efr h"
proof -
  note c = claims_all_distinct[OF assms]
  have 1: "merged_after_work g n sched sw efr h =
     (if ASSERT g \<and> \<not> list_all (\<lambda>r. cset_region_checks efr h r) (map snd sched) then None
      else Some (contributions g efr h (map snd sched) FreeCSetStats_init))"
    using c by (intro merged_after_work_eq)
  have 2: "merged_after_work g 1 (map (Pair 0) (collection_set h)) sw efr h =
     (if ASSERT g \<and> \<not> list_all (\<lambda>r. cset_region_checks efr h r) (collection_set h) then None
      else Some (contributions g efr h (collection_set h) FreeCSetStats_init))"
    using merged_after_work_eq[where sched = "map (Pair 0) (collection_set h)" and n = 1 and g = g and sw = sw and efr = efr and h = h] assms(1)
    by (simp add: comp_def list_all_iff)
  have 3: "list_all (\<lambda>r. cset_region_checks efr h r) (map snd sched)
         = list_all (\<lambda>r. cset_region_checks efr h r) (collection_set h)"
    using c(2) by (simp add: list_all_iff del: set_map)
  have 4: "contributions g efr h (map snd sched) FreeCSetStats_init
         = contributions g efr h (collection_set h) FreeCSetStats_init"
    using assms(2) by (intro contributions_mset) (simp add: claims_all_def)
  show ?thesis by (simp only: 1 2 3 4)
qed

lemmas scenarioA_defs = scenarioA_result_def scenarioA_sched_def scenarioA_task_def
  scenarioA_efr_def scenarioA_heap_def scenarioA_R1_def scenarioA_R2_def unused_region_def
  scenarioA_globals_def

lemmas free_cset_defs = FreeCollectionSetTask_work_def FreeCollectionSetTask_new_def
  set_max_workers_def do_heap_region_def handle_failed_region_def
  handle_evacuated_region_def account_evacuated_region_def account_failed_region_def
  account_rs_length_def record_surv_words_in_group_def update_region_def old_set_add_def
  MutexLocker_lock_def MutexLocker_unlock_def handle_evacuation_failure_def free_region_def
  hr_clear_def clear_eden_def in_collection_set_def is_in_cset_def
  is_on_master_free_list_def is_in_old_set_def is_young_def is_empty_def contains_def
  assert_tracks_surviving_words_def FreeCSetStats_init_def HeapWordSize_def

subsection \<open>Where the regions of the collection set end up\<close>

text \<open>
  C1, as amended. Take a collection set of distinct regions, none of them linked into a
  region set, and a schedule in which the workers visit every region of it once; in a
  debug build let the checks of the closure hold for every region. Then the pass
  returns, and afterwards every region of the collection set is in one of two states.
  A region whose index is in the evacuation failure set is an old region in the old set.
  Every other region is an empty free region that is in no region set: the closure frees
  it with \<^verbatim>\<open>free_region(r, nullptr)\<close>, which puts it on no free list, and line 607
  asserts after either branch that the region is not on the master free list. No region
  is on the master free list, and none is in both sets. The old set gained the failed
  regions and nothing else, in the order of the visits, and each of them was inserted
  while the worker that visited it owned \<open>OldSets_lock\<close>; the lock is free again once a
  failed region has been visited.
\<close>

theorem collection_set_regions_after_pass:
  assumes "distinct (collection_set h)"
    and "claims_all (length (worker_stats t)) (collection_set h) sched"
    and "list_all (\<lambda>r. containing_set (region_at h r) = None) (collection_set h)"
    and "ASSERT g \<longrightarrow>
           list_all (cset_region_checks (evac_failure_regions t) h) (collection_set h)"
  shows "\<exists>t' h'. FreeCollectionSetTask_work g sched (t, h) = Inr (t', h') \<and>
           (\<forall>r \<in> set (collection_set h).
              (if contains (evac_failure_regions t) r
               then is_in_old_set h' r \<and> region_type (region_at h' r) = OldTag
               else \<not> is_in_old_set h' r \<and> region_type (region_at h' r) = FreeTag
                    \<and> used (region_at h' r) = 0
                    \<and> containing_set (region_at h' r) = None)
              \<and> \<not> is_on_master_free_list h' r)
           \<and> old_set_history h' =
               old_set_history h
               @ map (\<lambda>v. (snd v, Some (fst v)))
                   (filter (\<lambda>v. contains (evac_failure_regions t) (snd v)) sched)
           \<and> OldSets_lock h' =
               (if list_ex (\<lambda>v. contains (evac_failure_regions t) (snd v)) sched then None
                else OldSets_lock h)"
proof -
  note c = claims_all_distinct[OF assms(1,2)]
  let ?efr = "evac_failure_regions t" and ?sw = "surviving_young_words t"
  have ok: "ASSERT g \<Longrightarrow> list_all (\<lambda>v. cset_region_checks ?efr h (snd v)) sched"
    using assms(4) c(2) by (simp add: list_all_iff del: set_map) auto
  from FreeCollectionSetTask_work_ok[OF c(1) c(3) ok]
  obtain ws' where w:
    "FreeCollectionSetTask_work g sched (t, h) =
       Inr (t\<lparr>worker_stats := ws'\<rparr>, heap_after_all ?efr ?sw sched h)"
    by blast
  let ?h' = "heap_after_all ?efr ?sw sched h"
  have "(if contains ?efr r
         then is_in_old_set ?h' r \<and> region_type (region_at ?h' r) = OldTag
         else \<not> is_in_old_set ?h' r \<and> region_type (region_at ?h' r) = FreeTag
              \<and> used (region_at ?h' r) = 0
              \<and> containing_set (region_at ?h' r) = None)
        \<and> \<not> is_on_master_free_list ?h' r"
    if r: "r \<in> set (collection_set h)" for r
  proof -
    have "r \<in> snd ` set sched" using r c(2) by simp
    then have reg: "region_at ?h' r = region_after ?efr ?sw r (region_at h r)"
      using heap_after_all_region[OF c(1), where efr = ?efr and sw = ?sw and h = h and r = r]
      by simp
    have none: "containing_set (region_at h r) = None"
      using assms(3) r by (simp add: list_all_iff)
    show ?thesis
      using none
      by (simp add: reg region_after_def is_in_old_set_def is_on_master_free_list_def
          hr_clear_def Let_def)
  qed
  then show ?thesis
    using w heap_after_all_history[of ?efr ?sw sched h] heap_after_all_lock[of ?efr ?sw sched h]
    by blast
qed

text \<open>
  The theorem applied to scenario A: its hypotheses hold there, the run returns, region 2
  is an old region in the old set, inserted by worker 1 under the lock, region 1 is a
  free region, and neither is on the master free list.
\<close>

theorem collection_set_regions_after_pass_witness:
  "\<not> isl scenarioA_result
   \<and> is_in_old_set (snd (projr scenarioA_result)) 2
   \<and> region_type (region_at (snd (projr scenarioA_result)) 2) = OldTag
   \<and> region_type (region_at (snd (projr scenarioA_result)) 1) = FreeTag
   \<and> \<not> is_on_master_free_list (snd (projr scenarioA_result)) 1
   \<and> \<not> is_on_master_free_list (snd (projr scenarioA_result)) 2
   \<and> old_set_history (snd (projr scenarioA_result)) = [(2, Some 1)]
   \<and> OldSets_lock (snd (projr scenarioA_result)) = None"
proof -
  let ?h = "snd (FreeCollectionSetTask_new (\<lambda>i. 0) scenarioA_efr scenarioA_heap)"
  have cs: "collection_set ?h = [1, 2]"
    by (simp add: FreeCollectionSetTask_new_def clear_eden_def scenarioA_heap_def)
  have hist: "old_set_history ?h = []" "OldSets_lock ?h = None"
    by (simp_all add: FreeCollectionSetTask_new_def clear_eden_def scenarioA_heap_def)
  have h1: "distinct (collection_set ?h)" by (simp add: cs)
  have h2: "claims_all (length (worker_stats scenarioA_task)) (collection_set ?h) scenarioA_sched"
    by (simp add: cs claims_all_def scenarioA_sched_def scenarioA_task_def set_max_workers_def)
  have h3: "list_all (\<lambda>r. containing_set (region_at ?h r) = None) (collection_set ?h)"
    by (simp add: cs)
       (simp add: FreeCollectionSetTask_new_def clear_eden_def scenarioA_heap_def
        scenarioA_R1_def scenarioA_R2_def)
  have h4: "ASSERT scenarioA_globals \<longrightarrow>
      list_all (cset_region_checks (evac_failure_regions scenarioA_task) ?h) (collection_set ?h)"
    by (simp add: cs)
       (simp add: FreeCollectionSetTask_new_def clear_eden_def scenarioA_heap_def
        scenarioA_R1_def scenarioA_R2_def cset_region_checks_def scenarioA_task_def
        set_max_workers_def scenarioA_efr_def contains_def in_collection_set_def
        is_in_cset_def is_young_def assert_tracks_surviving_words_def)
  have e: "contains (evac_failure_regions scenarioA_task) 2"
    "\<not> contains (evac_failure_regions scenarioA_task) 1"
    by (simp_all add: scenarioA_task_def set_max_workers_def FreeCollectionSetTask_new_def
        scenarioA_efr_def contains_def)
  from collection_set_regions_after_pass[OF h1 h2 h3 h4]
  obtain t' h' where r: "scenarioA_result = Inr (t', h')"
    and p: "\<forall>r \<in> set (collection_set ?h).
              (if contains (evac_failure_regions scenarioA_task) r
               then is_in_old_set h' r \<and> region_type (region_at h' r) = OldTag
               else \<not> is_in_old_set h' r \<and> region_type (region_at h' r) = FreeTag
                    \<and> used (region_at h' r) = 0
                    \<and> containing_set (region_at h' r) = None)
              \<and> \<not> is_on_master_free_list h' r"
    and q: "old_set_history h' =
               old_set_history ?h
               @ map (\<lambda>v. (snd v, Some (fst v)))
                   (filter (\<lambda>v. contains (evac_failure_regions scenarioA_task) (snd v))
                      scenarioA_sched)"
      "OldSets_lock h' =
               (if list_ex (\<lambda>v. contains (evac_failure_regions scenarioA_task) (snd v))
                     scenarioA_sched then None
                else OldSets_lock ?h)"
    unfolding scenarioA_result_def by blast
  show ?thesis
    using p e q by (simp add: r cs hist scenarioA_sched_def)
qed

text \<open>
  C1 as the spec states it fails in scenario A. Region 1 is in the collection set and did
  not fail evacuation; after the pass it is neither on the master free list nor in the
  old set.
\<close>

theorem evacuated_region_on_neither_list:
  "\<not> isl scenarioA_result
   \<and> \<not> is_on_master_free_list (snd (projr scenarioA_result)) 1
   \<and> \<not> is_in_old_set (snd (projr scenarioA_result)) 1
   \<and> \<not> contains scenarioA_efr 1 \<and> 1 \<in> set (collection_set scenarioA_heap)"
  by (simp add: scenarioA_defs free_cset_defs Let_def)

subsection \<open>Merging the statistics of the workers\<close>

text \<open>
  C4. Let the regions of the collection set be distinct, and let a schedule distribute
  them among \<open>n\<close> workers in any way and any order. Construct the task, give it \<open>n\<close>
  workers and run the schedule; then the statistics merged from the workers' slots are
  those merged after one worker has visited the same collection set in its own order,
  which is \<^verbatim>\<open>do_work(0)\<close> of a worker that claims every region (and the one run
  aborts exactly when the other does). The run itself writes none of
  the shared counters, whatever heap and task it starts from. The destructor reports
  the merged statistics once: the heap's used bytes go down by the merged before-used
  bytes, the policy is notified of the freed regions once, and the evacuation info gets
  the merged number of regions freed.
\<close>

theorem merged_stats_equal_serial_replay:
  assumes "distinct (collection_set h)" and "claims_all n (collection_set h) sched"
  shows "merged_after_work g n sched sw efr h
           = merged_after_work g 1 (map (Pair 0) (collection_set h)) sw efr h
         \<and> shared_counters (snd (state_reached (FreeCollectionSetTask_work g sched (t, h1))))
             = shared_counters h1
         \<and> summary_bytes_used (fst (FreeCollectionSetTask_delete t (h1, info)))
             = summary_bytes_used h1
               - before_used_bytes (merge_worker_stats (worker_stats t) (active_workers t))
         \<and> policy_cset_regions_freed (fst (FreeCollectionSetTask_delete t (h1, info)))
             = Suc (policy_cset_regions_freed h1)
         \<and> info_regions_freed (snd (FreeCollectionSetTask_delete t (h1, info)))
             = regions_freed (merge_worker_stats (worker_stats t) (active_workers t))"
  using merged_after_work_permutation[OF assms, of g sw efr]
    FreeCollectionSetTask_work_frame[of g sched t h1]
  by (simp add: FreeCollectionSetTask_delete_eq Let_def)

text \<open>
  The theorem applied to scenario A: two workers and the serial replay both merge to
  4096 bytes used before, one region freed, 128 failure-used words, 3968 wasted words.
\<close>

theorem merged_stats_equal_serial_replay_witness:
  "merged_after_work scenarioA_globals 2 scenarioA_sched (\<lambda>i. 0) scenarioA_efr scenarioA_heap
     = Some scenarioA_merged
   \<and> merged_after_work scenarioA_globals 1 (map (Pair 0) [1, 2]) (\<lambda>i. 0) scenarioA_efr
       scenarioA_heap = Some scenarioA_merged"
proof -
  have cs: "collection_set scenarioA_heap = [1, 2]"
    by (simp add: scenarioA_heap_def)
  have h1: "distinct (collection_set scenarioA_heap)" by (simp add: cs)
  have h2: "claims_all 2 (collection_set scenarioA_heap) scenarioA_sched"
    by (simp add: cs claims_all_def scenarioA_sched_def)
  have v: "merged_after_work scenarioA_globals 2 scenarioA_sched (\<lambda>i. 0) scenarioA_efr
             scenarioA_heap = Some scenarioA_merged"
    by (simp add: merged_after_work_def scenarioA_sched_def scenarioA_efr_def
        scenarioA_heap_def scenarioA_R1_def scenarioA_R2_def unused_region_def
        scenarioA_globals_def free_cset_defs merge_worker_stats_def merge_stats_def
        scenarioA_merged_def Let_def upt_rec)
  show ?thesis
    using merged_stats_equal_serial_replay[OF h1 h2, of scenarioA_globals "\<lambda>i. 0"
        scenarioA_efr] v
    by (simp add: cs)
qed

subsection \<open>Construction and teardown of the freeing task\<close>

text \<open>
  C7, as amended. The Eden set is cleared by the constructor of the task, when the batch
  is assembled and before any worker runs. The parallel work leaves the Eden set, the
  collection-set container and the shared counters as they are. The destructor, which
  runs on one thread after the join, merges the statistics and reports them: the heap's
  used bytes go down by the merged before-used bytes, the policy gets the merged
  remembered-set length and one notification of freed regions, the old generation's
  allocation tracker and its failure statistics grow by the merged values, and the
  evacuation info gets the merged number of regions freed. The destructor then clears
  the collection-set container. It leaves the Eden set as it finds it.
\<close>

theorem free_cset_teardown_effects:
  "snd (FreeCollectionSetTask_new sw efr h) = clear_eden h
   \<and> eden (clear_eden h) = {}
   \<and> eden (snd (state_reached (FreeCollectionSetTask_work g sched (t, h)))) = eden h
   \<and> collection_set (snd (state_reached (FreeCollectionSetTask_work g sched (t, h))))
       = collection_set h
   \<and> shared_counters (snd (state_reached (FreeCollectionSetTask_work g sched (t, h))))
       = shared_counters h
   \<and> eden (fst (FreeCollectionSetTask_delete t (h, info))) = eden h
   \<and> collection_set (fst (FreeCollectionSetTask_delete t (h, info))) = []
   \<and> summary_bytes_used (fst (FreeCollectionSetTask_delete t (h, info)))
       = summary_bytes_used h
         - before_used_bytes (merge_worker_stats (worker_stats t) (active_workers t))
   \<and> policy_rs_length (fst (FreeCollectionSetTask_delete t (h, info)))
       = rs_length (merge_worker_stats (worker_stats t) (active_workers t))
   \<and> old_gen_allocated_bytes_since_last_gc (fst (FreeCollectionSetTask_delete t (h, info)))
       = old_gen_allocated_bytes_since_last_gc h
         + bytes_allocated_in_old_since_last_gc
             (merge_worker_stats (worker_stats t) (active_workers t))
   \<and> old_failure_used (fst (FreeCollectionSetTask_delete t (h, info)))
       = old_failure_used h
         + failure_used_words (merge_worker_stats (worker_stats t) (active_workers t))
   \<and> old_failure_waste (fst (FreeCollectionSetTask_delete t (h, info)))
       = old_failure_waste h
         + failure_waste_words (merge_worker_stats (worker_stats t) (active_workers t))
   \<and> policy_cset_regions_freed (fst (FreeCollectionSetTask_delete t (h, info)))
       = Suc (policy_cset_regions_freed h)
   \<and> info_regions_freed (snd (FreeCollectionSetTask_delete t (h, info)))
       = regions_freed (merge_worker_stats (worker_stats t) (active_workers t))"
  using FreeCollectionSetTask_work_frame[of g sched t h]
  by (simp add: FreeCollectionSetTask_delete_eq Let_def FreeCollectionSetTask_new_def
      clear_eden_def)

text \<open>
  C7 as the spec states it fails: in scenario A the Eden set holds regions 1 and 2; it
  is empty as soon as the task is constructed, and the destructor applied to the heap
  with the two regions still in the Eden set leaves them there.
\<close>

theorem eden_cleared_by_constructor_not_destructor:
  "eden scenarioA_heap = {1, 2}
   \<and> eden (snd (FreeCollectionSetTask_new (\<lambda>i. 0) scenarioA_efr scenarioA_heap)) = {}
   \<and> eden (fst (FreeCollectionSetTask_delete scenarioA_task (scenarioA_heap, G1EvacInfo_init)))
       = {1, 2}"
  by (simp add: FreeCollectionSetTask_delete_eq Let_def FreeCollectionSetTask_new_def
      clear_eden_def scenarioA_heap_def)

subsection \<open>Eager reclamation of humongous objects\<close>

lemma free_humongous_region_lambda_eq:
  "free_humongous_region_lambda r (cl, h) =
     (cl\<lparr>freed_bytes := freed_bytes cl + used (region_at h r),
         humongous_regions_reclaimed := humongous_regions_reclaimed cl + 1\<rparr>,
      h\<lparr>region_at := (region_at h)(r := reclaimed_region (region_at h r))\<rparr>)"
  by (simp add: free_humongous_region_lambda_def Let_def set_containing_set_def
      free_humongous_region_def free_region_def update_region_def reclaimed_region_def)

lemma fold_free_humongous_closure:
  "distinct rs \<Longrightarrow>
   fst (fold free_humongous_region_lambda rs (cl, h)) =
     cl\<lparr>freed_bytes := freed_bytes cl + sum_list (map (\<lambda>r. used (region_at h r)) rs),
        humongous_regions_reclaimed := humongous_regions_reclaimed cl + of_nat (length rs)\<rparr>"
proof (induction rs arbitrary: cl h)
  case Nil
  then show ?case by simp
next
  case (Cons x xs)
  have s: "(\<Sum>r\<leftarrow>xs. used (if r = x then v else region_at h r))
           = (\<Sum>r\<leftarrow>xs. used (region_at h r))" for v
    using Cons.prems by (intro arg_cong[where f = sum_list] map_cong) auto
  show ?case
    using Cons.prems
    by (simp add: free_humongous_region_lambda_eq Cons.IH s add.assoc)
qed

lemma fold_free_humongous_heap:
  "snd (fold free_humongous_region_lambda rs (cl, h)) =
     h\<lparr>region_at := (\<lambda>r. if r \<in> set rs then reclaimed_region (region_at h r) else region_at h r)\<rparr>"
proof (induction rs arbitrary: cl h)
  case Nil
  then show ?case by simp
next
  case (Cons x xs)
  have idem: "reclaimed_region (reclaimed_region hr) = reclaimed_region hr" for hr
    by (simp add: reclaimed_region_def hr_clear_def)
  show ?case
    by (simp add: free_humongous_region_lambda_eq Cons.IH fun_eq_iff idem)
qed

lemma distinct_humongous_obj_regions: "distinct (humongous_obj_regions h start)"
proof -
  have "set (takeWhile P [Suc start..<n]) \<subseteq> {Suc start..<n}" for P n
    using set_takeWhileD by fastforce
  then have "start \<notin> set (takeWhile P [Suc start..<n])" for P n
    by fastforce
  then show ?thesis
    by (simp add: humongous_obj_regions_def)
qed

lemma fold_free_humongous:
  "distinct rs \<Longrightarrow>
   fold free_humongous_region_lambda rs (cl, h) =
     (cl\<lparr>freed_bytes := freed_bytes cl + sum_list (map (\<lambda>r. used (region_at h r)) rs),
         humongous_regions_reclaimed := humongous_regions_reclaimed cl + of_nat (length rs)\<rparr>,
      h\<lparr>region_at := (\<lambda>r. if r \<in> set rs then reclaimed_region (region_at h r) else region_at h r)\<rparr>)"
  by (simp add: prod_eq_iff fold_free_humongous_closure fold_free_humongous_heap)

lemma do_heap_region_index_reclaim:
  assumes "humongous_reclaim_candidate h idx"
    and "obj_at_bottom (region_at h idx) = TypeArrayKlass"
    and "\<not> (ASSERT g \<and> cm_marked_in_bitmap h idx)"
  shows "do_heap_region_index g idx (cl, h) =
     Inr (cl\<lparr>humongous_objects_reclaimed := humongous_objects_reclaimed cl + 1,
              freed_bytes := freed_bytes cl
                 + sum_list (map (\<lambda>r. used (region_at h r)) (humongous_obj_regions h idx)),
              humongous_regions_reclaimed := humongous_regions_reclaimed cl
                 + of_nat (length (humongous_obj_regions h idx))\<rparr>,
          h\<lparr>cm_eagerly_reclaimed := cm_eagerly_reclaimed h @ [idx],
            region_at := (\<lambda>r. if r \<in> set (humongous_obj_regions h idx)
                               then reclaimed_region (region_at h r) else region_at h r)\<rparr>)"
proof -
  let ?h1 = "humongous_object_eagerly_reclaimed idx h"
  let ?cl1 = "cl\<lparr>humongous_objects_reclaimed := humongous_objects_reclaimed cl + 1\<rparr>"
  have rs: "humongous_obj_regions ?h1 idx = humongous_obj_regions h idx"
    by (simp add: humongous_obj_regions_def humongous_object_eagerly_reclaimed_def)
  have "do_heap_region_index g idx (cl, h) =
          Inr (fold free_humongous_region_lambda (humongous_obj_regions h idx) (?cl1, ?h1))"
    using assms
    by (simp add: do_heap_region_index_def is_reclaimable_def is_humongous_reclaim_candidate_def
        is_marked_in_bitmap_def Let_def humongous_obj_regions_iterate_def rs)
       (simp add: humongous_object_eagerly_reclaimed_def)
  then show ?thesis
    by (simp add: fold_free_humongous[OF distinct_humongous_obj_regions]
        humongous_object_eagerly_reclaimed_def cong: if_cong)
qed

lemma do_heap_region_index_skip:
  "\<not> humongous_reclaim_candidate h idx \<Longrightarrow> do_heap_region_index g idx (cl, h) = Inr (cl, h)"
  by (simp add: do_heap_region_index_def is_reclaimable_def is_humongous_reclaim_candidate_def)

lemma do_heap_region_index_guarantee:
  "humongous_reclaim_candidate h idx \<Longrightarrow> obj_at_bottom (region_at h idx) \<noteq> TypeArrayKlass \<Longrightarrow>
   do_heap_region_index g idx (cl, h) = Inl (guarantee_failed, (cl, h))"
  by (simp add: do_heap_region_index_def is_reclaimable_def is_humongous_reclaim_candidate_def)

lemma do_heap_region_index_assert:
  "humongous_reclaim_candidate h idx \<Longrightarrow> obj_at_bottom (region_at h idx) = TypeArrayKlass \<Longrightarrow>
   ASSERT g \<Longrightarrow> cm_marked_in_bitmap h idx \<Longrightarrow>
   do_heap_region_index g idx (cl, h) =
     Inl (assert_failed, (cl, humongous_object_eagerly_reclaimed idx h))"
  by (simp add: do_heap_region_index_def is_reclaimable_def is_humongous_reclaim_candidate_def
      is_marked_in_bitmap_def humongous_object_eagerly_reclaimed_def)

lemma reclaimed_region_obj: "obj_at_bottom (reclaimed_region hr) = obj_at_bottom hr"
  by (simp add: reclaimed_region_def hr_clear_def)

lemma do_heap_region_index_scan_inputs:
  "scan_inputs (snd (state_reached (do_heap_region_index g idx (cl, h)))) = scan_inputs h"
proof (cases "humongous_reclaim_candidate h idx")
  case False
  then show ?thesis by (simp add: do_heap_region_index_skip state_reached_def)
next
  case True
  show ?thesis
  proof (cases "obj_at_bottom (region_at h idx) = TypeArrayKlass")
    case False
    then show ?thesis
      using True by (simp add: do_heap_region_index_guarantee state_reached_def)
  next
    case ta: True
    show ?thesis
    proof (cases "ASSERT g \<and> cm_marked_in_bitmap h idx")
      case True
      then show ?thesis
        using \<open>humongous_reclaim_candidate h idx\<close> ta
        by (simp add: do_heap_region_index_assert state_reached_def scan_inputs_def
            humongous_object_eagerly_reclaimed_def)
    next
      case False
      show ?thesis
        using do_heap_region_index_reclaim[OF \<open>humongous_reclaim_candidate h idx\<close> ta False]
        by (simp add: state_reached_def scan_inputs_def fun_eq_iff reclaimed_region_obj)
    qed
  qed
qed

lemma heap_region_iterate_over_guarantee:
  assumes "idx \<in> set idxs" "humongous_reclaim_candidate h idx"
    and "obj_at_bottom (region_at h idx) \<noteq> TypeArrayKlass"
  shows "isl (heap_region_iterate_over g idxs (cl, h))"
  using assms
proof (induction idxs arbitrary: cl h)
  case Nil
  then show ?case by simp
next
  case (Cons i rest)
  show ?case
  proof (cases "do_heap_region_index g i (cl, h)")
    case (Inl a)
    then show ?thesis by simp
  next
    case (Inr st)
    obtain cl' h' where st: "st = (cl', h')" by (cases st)
    have same: "scan_inputs h' = scan_inputs h"
      using do_heap_region_index_scan_inputs[of g i cl h] Inr st
      by (simp add: state_reached_def)
    have "i \<noteq> idx"
      using Inr Cons.prems(2,3) by (auto simp: do_heap_region_index_guarantee)
    then have "idx \<in> set rest" using Cons.prems(1) by simp
    moreover have "humongous_reclaim_candidate h' idx"
      "obj_at_bottom (region_at h' idx) \<noteq> TypeArrayKlass"
      using same Cons.prems(2,3) by (simp_all add: scan_inputs_def fun_eq_iff)
    ultimately have "isl (heap_region_iterate_over g rest (cl', h'))"
      by (rule Cons.IH)
    then show ?thesis by (simp add: Inr st)
  qed
qed

lemma scenarioB_regions: "humongous_obj_regions scenarioB_heap 0 = [0, 1]"
  by (simp add: humongous_obj_regions_def scenarioB_heap_def empty_heap_def
      humongous_region_def upt_rec)

text \<open>
  C5. A region is reclaimable exactly when it is flagged as a humongous reclaim
  candidate; neither the remembered set nor the mark bitmap is read to decide it.
  Whenever the visit of a region returns, the object of the region has been reclaimed
  exactly when the region was flagged: for a flagged region the reclaimed objects grow
  by one, every region the object spans becomes an empty free region in no region set,
  every other region is untouched, the freed bytes grow by the used bytes of the spanned
  regions and the reclaimed regions by their number; a region that is not flagged is
  left as it is, and so is the closure. The visit returns whenever a flagged region
  holds a type array, as the selection of the candidates guarantees, and a debug build
  does not find the object marked.
\<close>

theorem humongous_reclaim_decision:
  "is_reclaimable h idx = humongous_reclaim_candidate h idx
   \<and> (\<forall>cl' h'. do_heap_region_index g idx (cl, h) = Inr (cl', h') \<longrightarrow>
         ((humongous_objects_reclaimed cl' = humongous_objects_reclaimed cl + 1)
            = humongous_reclaim_candidate h idx)
         \<and> (if humongous_reclaim_candidate h idx
             then (\<forall>r \<in> set (humongous_obj_regions h idx).
                     region_type (region_at h' r) = FreeTag \<and> used (region_at h' r) = 0
                     \<and> containing_set (region_at h' r) = None)
                  \<and> (\<forall>r. r \<notin> set (humongous_obj_regions h idx) \<longrightarrow>
                         region_at h' r = region_at h r)
                  \<and> freed_bytes cl' = freed_bytes cl
                       + sum_list (map (\<lambda>r. used (region_at h r)) (humongous_obj_regions h idx))
                  \<and> humongous_regions_reclaimed cl' = humongous_regions_reclaimed cl
                       + of_nat (length (humongous_obj_regions h idx))
             else cl' = cl \<and> h' = h))
   \<and> ((humongous_reclaim_candidate h idx \<longrightarrow>
          obj_at_bottom (region_at h idx) = TypeArrayKlass
          \<and> \<not> (ASSERT g \<and> cm_marked_in_bitmap h idx)) \<longrightarrow>
        \<not> isl (do_heap_region_index g idx (cl, h)))"
proof (intro conjI allI impI)
  show "is_reclaimable h idx = humongous_reclaim_candidate h idx"
    by (simp add: is_reclaimable_def is_humongous_reclaim_candidate_def)
next
  assume "humongous_reclaim_candidate h idx \<longrightarrow>
          obj_at_bottom (region_at h idx) = TypeArrayKlass
          \<and> \<not> (ASSERT g \<and> cm_marked_in_bitmap h idx)"
  then show "\<not> isl (do_heap_region_index g idx (cl, h))"
    by (cases "humongous_reclaim_candidate h idx")
       (simp_all add: do_heap_region_index_skip do_heap_region_index_reclaim)
next
  fix cl' h'
  assume ret: "do_heap_region_index g idx (cl, h) = Inr (cl', h')"
  let ?rs = "humongous_obj_regions h idx"
  have flagged: "cl' = cl\<lparr>humongous_objects_reclaimed := humongous_objects_reclaimed cl + 1,
              freed_bytes := freed_bytes cl + sum_list (map (\<lambda>r. used (region_at h r)) ?rs),
              humongous_regions_reclaimed := humongous_regions_reclaimed cl + of_nat (length ?rs)\<rparr>
       \<and> h' = h\<lparr>cm_eagerly_reclaimed := cm_eagerly_reclaimed h @ [idx],
            region_at := (\<lambda>r. if r \<in> set ?rs
                               then reclaimed_region (region_at h r) else region_at h r)\<rparr>"
    if c: "humongous_reclaim_candidate h idx"
  proof -
    have ta: "obj_at_bottom (region_at h idx) = TypeArrayKlass"
      using ret c do_heap_region_index_guarantee[of h idx g cl] by auto
    have na: "\<not> (ASSERT g \<and> cm_marked_in_bitmap h idx)"
      using ret c ta do_heap_region_index_assert[of h idx g cl] by auto
    show ?thesis
      using ret do_heap_region_index_reclaim[OF c ta na, of cl] by simp
  qed
  have unflagged: "cl' = cl \<and> h' = h" if "\<not> humongous_reclaim_candidate h idx"
    using ret that by (simp add: do_heap_region_index_skip)
  show "(humongous_objects_reclaimed cl' = humongous_objects_reclaimed cl + 1)
          = humongous_reclaim_candidate h idx"
    using flagged unflagged by (cases "humongous_reclaim_candidate h idx") auto
  show "if humongous_reclaim_candidate h idx
        then (\<forall>r \<in> set ?rs.
                region_type (region_at h' r) = FreeTag \<and> used (region_at h' r) = 0
                \<and> containing_set (region_at h' r) = None)
             \<and> (\<forall>r. r \<notin> set ?rs \<longrightarrow> region_at h' r = region_at h r)
             \<and> freed_bytes cl' = freed_bytes cl
                  + sum_list (map (\<lambda>r. used (region_at h r)) ?rs)
             \<and> humongous_regions_reclaimed cl' = humongous_regions_reclaimed cl
                  + of_nat (length ?rs)
        else cl' = cl \<and> h' = h"
  proof (cases "humongous_reclaim_candidate h idx")
    case True
    from flagged[OF True] show ?thesis
      using True by (simp add: reclaimed_region_def hr_clear_def)
  next
    case False
    then show ?thesis using unflagged by simp
  qed
qed

text \<open>
  The theorem applied to scenario B: the visit of region 0 frees regions 0 and 1 and
  counts 150 bytes, two regions and one object; region 2 is untouched, and the visit of
  region 2, which is not flagged, changes nothing.
\<close>

theorem humongous_reclaim_decision_witness:
  "\<not> isl scenarioB_result
   \<and> region_type (region_at (snd (projr scenarioB_result)) 0) = FreeTag
   \<and> region_type (region_at (snd (projr scenarioB_result)) 1) = FreeTag
   \<and> containing_set (region_at (snd (projr scenarioB_result)) 1) = None
   \<and> region_at (snd (projr scenarioB_result)) 2 = region_at scenarioB_heap 2
   \<and> freed_bytes (fst (projr scenarioB_result)) = 150
   \<and> humongous_regions_reclaimed (fst (projr scenarioB_result)) = 2
   \<and> humongous_objects_reclaimed (fst (projr scenarioB_result)) = 1
   \<and> do_heap_region_index scenarioA_globals 2 (G1FreeHumongousRegionClosure_init, scenarioB_heap)
       = Inr (G1FreeHumongousRegionClosure_init, scenarioB_heap)"
proof -
  have c: "humongous_reclaim_candidate scenarioB_heap 0"
    "obj_at_bottom (region_at scenarioB_heap 0) = TypeArrayKlass"
    "\<not> (ASSERT scenarioA_globals \<and> cm_marked_in_bitmap scenarioB_heap 0)"
    "\<not> humongous_reclaim_candidate scenarioB_heap 2"
    by (simp_all add: scenarioB_heap_def empty_heap_def humongous_region_def)
  note t0 = humongous_reclaim_decision[of scenarioB_heap 0 scenarioA_globals
      G1FreeHumongousRegionClosure_init]
  note t2 = humongous_reclaim_decision[of scenarioB_heap 2 scenarioA_globals
      G1FreeHumongousRegionClosure_init]
  have ret0: "\<not> isl scenarioB_result"
    using t0 c unfolding scenarioB_result_def by blast
  then obtain cl' h' where r: "scenarioB_result = Inr (cl', h')"
    by (metis isl_def sum.collapse(2) surj_pair)
  have p: "(\<forall>r \<in> set (humongous_obj_regions scenarioB_heap 0).
                 region_type (region_at h' r) = FreeTag \<and> used (region_at h' r) = 0
                 \<and> containing_set (region_at h' r) = None)"
      "\<forall>r. r \<notin> set (humongous_obj_regions scenarioB_heap 0) \<longrightarrow>
           region_at h' r = region_at scenarioB_heap r"
      "freed_bytes cl' = freed_bytes G1FreeHumongousRegionClosure_init
         + sum_list (map (\<lambda>r. used (region_at scenarioB_heap r))
                      (humongous_obj_regions scenarioB_heap 0))"
      "humongous_regions_reclaimed cl'
         = humongous_regions_reclaimed G1FreeHumongousRegionClosure_init
           + of_nat (length (humongous_obj_regions scenarioB_heap 0))"
      "humongous_objects_reclaimed cl'
         = humongous_objects_reclaimed G1FreeHumongousRegionClosure_init + 1"
    using t0 c(1) r unfolding scenarioB_result_def by auto
  have u: "used (region_at scenarioB_heap 0) = 100" "used (region_at scenarioB_heap (Suc 0)) = 50"
    by (simp_all add: scenarioB_heap_def empty_heap_def humongous_region_def)
  have ret2: "\<not> isl (do_heap_region_index scenarioA_globals 2
                       (G1FreeHumongousRegionClosure_init, scenarioB_heap))"
    using t2 c(4) by blast
  then obtain cl2 h2 where r2: "do_heap_region_index scenarioA_globals 2
        (G1FreeHumongousRegionClosure_init, scenarioB_heap) = Inr (cl2, h2)"
    by (metis isl_def sum.collapse(2) surj_pair)
  have s: "cl2 = G1FreeHumongousRegionClosure_init \<and> h2 = scenarioB_heap"
    using t2 c(4) r2 by auto
  have r2': "do_heap_region_index scenarioA_globals 2
        (G1FreeHumongousRegionClosure_init, scenarioB_heap)
      = Inr (G1FreeHumongousRegionClosure_init, scenarioB_heap)"
    using r2 s by simp
  have q: "region_type (region_at (snd (projr scenarioB_result)) 0) = FreeTag
      \<and> region_type (region_at (snd (projr scenarioB_result)) 1) = FreeTag
      \<and> containing_set (region_at (snd (projr scenarioB_result)) 1) = None
      \<and> region_at (snd (projr scenarioB_result)) 2 = region_at scenarioB_heap 2
      \<and> freed_bytes (fst (projr scenarioB_result)) = 150
      \<and> humongous_regions_reclaimed (fst (projr scenarioB_result)) = 2
      \<and> humongous_objects_reclaimed (fst (projr scenarioB_result)) = 1"
    using p by (simp add: r scenarioB_regions u G1FreeHumongousRegionClosure_init_def)
  from ret0 q r2' show ?thesis by blast
qed

text \<open>
  C6. When a region selected for reclamation holds an object that is not a type array,
  the guarantee fails and the VM aborts in the state in which the closure was entered:
  nothing has been notified, counted or freed. A scan of a heap with such a region
  never returns normally.
\<close>

theorem guarantee_fires_before_reclaiming:
  "(is_reclaimable h idx \<and> obj_at_bottom (region_at h idx) \<noteq> TypeArrayKlass \<longrightarrow>
      do_heap_region_index g idx (cl, h) = Inl (guarantee_failed, (cl, h)))
   \<and> (idx < num_regions h \<and> is_reclaimable h idx
        \<and> obj_at_bottom (region_at h idx) \<noteq> TypeArrayKlass \<longrightarrow>
      isl (heap_region_iterate g (cl, h)))"
proof -
  have "isl (heap_region_iterate g (cl, h))"
    if "idx < num_regions h" "is_reclaimable h idx"
      "obj_at_bottom (region_at h idx) \<noteq> TypeArrayKlass"
    unfolding heap_region_iterate_def
    using that
    by (intro heap_region_iterate_over_guarantee[of idx])
       (simp_all add: is_reclaimable_def is_humongous_reclaim_candidate_def)
  then show ?thesis
    using do_heap_region_index_guarantee[of h idx g cl]
    by (simp add: is_reclaimable_def is_humongous_reclaim_candidate_def)
qed

text \<open>
  The theorem applied to the heap whose only region is flagged and holds an object array.
\<close>

theorem guarantee_fires_before_reclaiming_witness:
  "do_heap_region_index scenarioA_globals 0
        (G1FreeHumongousRegionClosure_init, flagged_objArray_heap)
       = Inl (guarantee_failed, (G1FreeHumongousRegionClosure_init, flagged_objArray_heap))
   \<and> isl (heap_region_iterate scenarioA_globals
             (G1FreeHumongousRegionClosure_init, flagged_objArray_heap))"
proof -
  have c: "0 < num_regions flagged_objArray_heap" "is_reclaimable flagged_objArray_heap 0"
    "obj_at_bottom (region_at flagged_objArray_heap 0) \<noteq> TypeArrayKlass"
    by (simp_all add: flagged_objArray_heap_def empty_heap_def humongous_region_def
        is_reclaimable_def is_humongous_reclaim_candidate_def)
  show ?thesis
    using guarantee_fires_before_reclaiming[of flagged_objArray_heap 0 scenarioA_globals
        G1FreeHumongousRegionClosure_init] c
    by blast
qed

subsection \<open>Redirtying of logged cards\<close>

lemma do_card_ptr_eq:
  "do_card_ptr efr c w (cl, h) =
     (if will_become_free h efr (region_for_card h c) then (cl, h)
      else (cl\<lparr>num_dirtied := num_dirtied cl + 1\<rparr>,
            h\<lparr>card_table := (card_table h)(c := dirty_card_val)\<rparr>))"
  by (simp add: do_card_ptr_def Let_def)

lemma will_become_free_card_table [simp]:
  "will_become_free (h\<lparr>card_table := ct\<rparr>) efr hr = will_become_free h efr hr"
  "region_for_card (h\<lparr>card_table := ct\<rparr>) c = region_for_card h c"
  by (simp_all add: will_become_free_def is_in_cset_def region_for_card_def)

lemma fold_do_card_ptr:
  "fold (\<lambda>c. do_card_ptr efr c w) cards (cl, h) =
     (cl\<lparr>num_dirtied := num_dirtied cl + of_nat (length (retained_cards h efr cards))\<rparr>,
      h\<lparr>card_table := (\<lambda>c. if c \<in> set (retained_cards h efr cards) then dirty_card_val
                               else card_table h c)\<rparr>)"
proof (induction cards arbitrary: cl h)
  case Nil
  then show ?case by (simp add: retained_cards_def)
next
  case (Cons c cards)
  have r: "retained_cards (h\<lparr>card_table := ct\<rparr>) efr cs = retained_cards h efr cs" for ct cs
    by (simp add: retained_cards_def)
  show ?case
  proof (cases "will_become_free h efr (region_for_card h c)")
    case True
    then show ?thesis
      by (simp add: do_card_ptr_eq Cons.IH) (simp add: retained_cards_def)
  next
    case False
    then show ?thesis
      by (simp add: do_card_ptr_eq Cons.IH r) (auto simp: retained_cards_def fun_eq_iff add.assoc)
  qed
qed

lemma apply_to_buffer_eq:
  "apply_to_buffer efr node cap w st =
     fold (\<lambda>c. do_card_ptr efr c w) (map (nth (node_buffer node)) [node_index node..<cap]) st"
  by (simp add: apply_to_buffer_def fold_map comp_def)

text \<open>
  C2. For a logged card, the closure writes the dirty value and adds one to
  \<open>num_dirtied\<close> when the card's region will not become free, and does nothing
  otherwise. A region will become free when it is in the collection set and not in the
  evacuation failure set; so it will not when it is in the failure set or outside the
  collection set. Applied to a buffer node, the closure adds to \<open>num_dirtied\<close> the
  number of logged cards whose region will not become free, and dirties exactly those
  cards. In scenario C, with one of three cards in an evacuated region, \<open>num_dirtied\<close>
  ends at 2 and the card of the evacuated region stays clean.
\<close>

theorem redirty_iff_region_not_freed:
  "do_card_ptr efr c w (cl, h) =
     (if will_become_free h efr (region_for_card h c) then (cl, h)
      else (cl\<lparr>num_dirtied := num_dirtied cl + 1\<rparr>,
            h\<lparr>card_table := (card_table h)(c := dirty_card_val)\<rparr>))
   \<and> will_become_free h efr hr = (is_in_cset h hr \<and> \<not> contains efr hr)
   \<and> (\<not> will_become_free h efr hr) = (contains efr hr \<or> \<not> is_in_cset h hr)
   \<and> num_dirtied (fst (apply_to_buffer efr node cap w (cl, h)))
       = num_dirtied cl + of_nat (length (retained_cards h efr (logged_cards node cap)))
   \<and> card_table (snd (apply_to_buffer efr node cap w (cl, h)))
       = (\<lambda>c. if c \<in> set (retained_cards h efr (logged_cards node cap)) then dirty_card_val
               else card_table h c)
   \<and> logged_cards scenarioC_node 4 = [3, 14, 25]
   \<and> retained_cards scenarioC_heap scenarioC_efr [3, 14, 25] = [14, 25]
   \<and> num_dirtied (fst (apply_to_buffer scenarioC_efr scenarioC_node 4 0
                          (RedirtyLoggedCardTableEntryClosure_new, scenarioC_heap))) = 2
   \<and> card_table (snd (apply_to_buffer scenarioC_efr scenarioC_node 4 0
                          (RedirtyLoggedCardTableEntryClosure_new, scenarioC_heap))) 3
       = clean_card_val"
proof -
  have l: "logged_cards scenarioC_node 4 = [3, 14, 25]"
    by (simp add: logged_cards_def scenarioC_node_def upt_rec)
  have r: "retained_cards scenarioC_heap scenarioC_efr [3, 14, 25] = [14, 25]"
    by (simp add: retained_cards_def will_become_free_def region_for_card_def is_in_cset_def
        contains_def scenarioC_heap_def scenarioC_efr_def empty_heap_def)
  have a: "apply_to_buffer efr node cap w (cl, h) =
     (cl\<lparr>num_dirtied := num_dirtied cl + of_nat (length (retained_cards h efr (logged_cards node cap)))\<rparr>,
      h\<lparr>card_table := (\<lambda>c. if c \<in> set (retained_cards h efr (logged_cards node cap))
                             then dirty_card_val else card_table h c)\<rparr>)"
    for efr node cap w cl h
    by (simp add: apply_to_buffer_eq fold_do_card_ptr logged_cards_def)
  have c: "card_table scenarioC_heap 3 = clean_card_val"
    by (simp add: scenarioC_heap_def empty_heap_def)
  show ?thesis
    by (simp add: a l r c do_card_ptr_eq RedirtyLoggedCardTableEntryClosure_new_def)
       (auto simp: will_become_free_def)
qed

subsection \<open>The subtasks of the two batches\<close>

lemmas batch_defs = G1PostEvacuateCollectionSetCleanupTask1_def
  G1PostEvacuateCollectionSetCleanupTask2_def G1BatchedTask_new_def add_serial_task_def
  add_parallel_task_def Let_def

text \<open>
  C8. The subtask that restores retained regions is among the parallel subtasks of the
  first batch exactly when evacuation failed. The subtask that restores preserved marks
  is among the parallel subtasks of the second batch exactly when evacuation failed,
  and the subtask that clears the bitmaps of retained regions exactly when evacuation
  failed and the pause is not a concurrent-start pause. None of the three is created
  anywhere else. Evacuation failed means that at least one region failed. In scenario
  D, with no failed region, the parallel subtasks of the first batch are the cleanup
  after the scan of the heap roots alone, and those of the second batch are the card
  redirtying, the resizing of the allocation buffers when it is enabled, and the
  freeing of the collection set.
\<close>

theorem failure_recovery_subtasks_only_after_failure:
  "(new_RestoreRetainedRegionsTask
      \<in> set (parallel_tasks (G1PostEvacuateCollectionSetCleanupTask1 efr h)))
     = evacuation_failed efr
   \<and> new_RestoreRetainedRegionsTask
      \<notin> set (serial_tasks (G1PostEvacuateCollectionSetCleanupTask1 efr h))
   \<and> (new_RestorePreservedMarksTask
        \<in> set (parallel_tasks (fst (G1PostEvacuateCollectionSetCleanupTask2 g sw efr h))))
     = evacuation_failed efr
   \<and> (new_ClearRetainedRegionBitmaps
        \<in> set (parallel_tasks (fst (G1PostEvacuateCollectionSetCleanupTask2 g sw efr h))))
     = (evacuation_failed efr \<and> \<not> in_concurrent_start_gc h)
   \<and> new_RestorePreservedMarksTask
        \<notin> set (serial_tasks (fst (G1PostEvacuateCollectionSetCleanupTask2 g sw efr h)))
   \<and> new_ClearRetainedRegionBitmaps
        \<notin> set (serial_tasks (fst (G1PostEvacuateCollectionSetCleanupTask2 g sw efr h)))
   \<and> new_RestoreRetainedRegionsTask
        \<notin> set (serial_tasks (fst (G1PostEvacuateCollectionSetCleanupTask2 g sw efr h))
             @ parallel_tasks (fst (G1PostEvacuateCollectionSetCleanupTask2 g sw efr h)))
   \<and> evacuation_failed efr = (regions_failed_evacuation efr \<noteq> [])
   \<and> parallel_tasks (G1PostEvacuateCollectionSetCleanupTask1 no_failures h)
       = [cleanup_after_scan_heap_roots_task]
   \<and> parallel_tasks (fst (G1PostEvacuateCollectionSetCleanupTask2 g sw no_failures h))
       = new_RedirtyLoggedCardsTask
         # (if UseTLAB g \<and> ResizeTLAB g then [new_ResizeTLABsTask] else [])
         @ [new_FreeCollectionSetTask]"
  by (simp add: batch_defs evacuation_failed_def num_regions_failed_evacuation_def
      no_failures_def)

lemma serial_tasks_of_cleanup2:
  "serial_tasks (fst (G1PostEvacuateCollectionSetCleanupTask2 g sw efr h)) =
     (if COMPILER2_OR_JVMCI g then [new_UpdateDerivedPointersTask] else [])
     @ (if has_humongous_reclaim_candidates h then [new_EagerlyReclaimHumongousObjectsTask]
        else [])"
  by (simp add: batch_defs)

lemma EagerlyReclaimHumongousObjectsTask_do_work_reached:
  "isl (EagerlyReclaimHumongousObjectsTask_do_work g w (t, h))
     = isl (heap_region_iterate g (G1FreeHumongousRegionClosure_init, h))
   \<and> region_at (snd (state_reached (EagerlyReclaimHumongousObjectsTask_do_work g w (t, h))))
     = region_at (snd (state_reached
         (heap_region_iterate g (G1FreeHumongousRegionClosure_init, h))))
   \<and> cm_eagerly_reclaimed
       (snd (state_reached (EagerlyReclaimHumongousObjectsTask_do_work g w (t, h))))
     = cm_eagerly_reclaimed (snd (state_reached
         (heap_region_iterate g (G1FreeHumongousRegionClosure_init, h))))"
  by (cases "heap_region_iterate g (G1FreeHumongousRegionClosure_init, h)")
     (auto simp: EagerlyReclaimHumongousObjectsTask_do_work_def state_reached_def Let_def
        record_work_item_def)

lemma scenarioB_scan:
  "heap_region_iterate scenarioA_globals (G1FreeHumongousRegionClosure_init, scenarioB_heap) =
     Inr (\<lparr>humongous_objects_reclaimed = 1, humongous_regions_reclaimed = 2, freed_bytes = 150\<rparr>,
          scenarioB_heap\<lparr>cm_eagerly_reclaimed := [0],
            region_at := (\<lambda>r. if r \<in> {0, 1} then reclaimed_region (region_at scenarioB_heap r)
                               else region_at scenarioB_heap r)\<rparr>)"
proof -
  have c: "humongous_reclaim_candidate scenarioB_heap 0"
    "obj_at_bottom (region_at scenarioB_heap 0) = TypeArrayKlass"
    "\<not> (ASSERT scenarioA_globals \<and> cm_marked_in_bitmap scenarioB_heap 0)"
    by (simp_all add: scenarioB_heap_def empty_heap_def humongous_region_def)
  have u: "used (region_at scenarioB_heap 0) = 100" "used (region_at scenarioB_heap (Suc 0)) = 50"
    "cm_eagerly_reclaimed scenarioB_heap = []" "num_regions scenarioB_heap = 3"
    by (simp_all add: scenarioB_heap_def empty_heap_def humongous_region_def)
  define h' where "h' = scenarioB_heap\<lparr>cm_eagerly_reclaimed := [0],
            region_at := (\<lambda>r. if r \<in> {0, 1} then reclaimed_region (region_at scenarioB_heap r)
                               else region_at scenarioB_heap r)\<rparr>"
  have first: "do_heap_region_index scenarioA_globals 0
                 (G1FreeHumongousRegionClosure_init, scenarioB_heap)
       = Inr (\<lparr>humongous_objects_reclaimed = 1, humongous_regions_reclaimed = 2,
                freed_bytes = 150\<rparr>, h')"
    by (simp add: do_heap_region_index_reclaim[OF c] scenarioB_regions u h'_def
        G1FreeHumongousRegionClosure_init_def)
  have rest: "\<not> humongous_reclaim_candidate h' (Suc 0)" "\<not> humongous_reclaim_candidate h' 2"
    by (simp_all add: h'_def scenarioB_heap_def empty_heap_def)
  have "heap_region_iterate_over scenarioA_globals [0, Suc 0, 2]
          (G1FreeHumongousRegionClosure_init, scenarioB_heap)
        = Inr (\<lparr>humongous_objects_reclaimed = 1, humongous_regions_reclaimed = 2,
                 freed_bytes = 150\<rparr>, h')"
    by (simp add: first do_heap_region_index_skip[OF rest(1)] do_heap_region_index_skip[OF rest(2)])
  moreover have "[0..<3] = [0, Suc 0, 2]"
    by (simp add: upt_rec)
  ultimately show ?thesis
    by (simp add: heap_region_iterate_def u h'_def)
qed

text \<open>
  C10. The subtask that reclaims humongous objects is among the serial subtasks of the
  second batch exactly when the heap reports humongous reclaim candidates as the batch
  is constructed. It is never a parallel subtask, and the first batch does not create
  it. The run of the serial subtasks of the second batch is then, after the update of
  the derived pointers where that subtask is compiled in, the \<^verbatim>\<open>do_work\<close> of the
  subtask with worker id 0 when candidates were reported, and nothing more when none
  were. The \<^verbatim>\<open>do_work\<close> is the scan of the heap with the reclaiming closure: it aborts
  when the scan does, and reaches the regions and the notifications to the concurrent
  mark that the scan reaches. On the heap of scenario B the run returns, regions 0 and 1
  are free and region 2 is as it was, the concurrent mark was told of the object in
  region 0, the subtask holds two reclaimed regions and 150 freed bytes, and the three
  work items are recorded under worker id 0 and under no other. When the batch was
  constructed from a heap that reported no candidates, the run leaves the heap of
  scenario B as it is, flagged region included: no scan took place.
\<close>

theorem humongous_reclaim_subtask_is_serial:
  "(new_EagerlyReclaimHumongousObjectsTask
      \<in> set (serial_tasks (fst (G1PostEvacuateCollectionSetCleanupTask2 g sw efr h))))
     = has_humongous_reclaim_candidates h
   \<and> new_EagerlyReclaimHumongousObjectsTask
      \<notin> set (parallel_tasks (fst (G1PostEvacuateCollectionSetCleanupTask2 g sw efr h)))
   \<and> new_EagerlyReclaimHumongousObjectsTask
      \<notin> set (serial_tasks (G1PostEvacuateCollectionSetCleanupTask1 efr h)
             @ parallel_tasks (G1PostEvacuateCollectionSetCleanupTask1 efr h))
   \<and> run_serial_tasks g ext
        (serial_tasks (fst (G1PostEvacuateCollectionSetCleanupTask2 g sw efr h))) (t, h1)
       = (if has_humongous_reclaim_candidates h
          then EagerlyReclaimHumongousObjectsTask_do_work g 0
                 (t, if COMPILER2_OR_JVMCI g then ext new_UpdateDerivedPointersTask 0 h1 else h1)
          else Inr (t, if COMPILER2_OR_JVMCI g then ext new_UpdateDerivedPointersTask 0 h1
                       else h1))
   \<and> isl (EagerlyReclaimHumongousObjectsTask_do_work g w (t, h1))
       = isl (heap_region_iterate g (G1FreeHumongousRegionClosure_init, h1))
   \<and> region_at (snd (state_reached (EagerlyReclaimHumongousObjectsTask_do_work g w (t, h1))))
       = region_at (snd (state_reached
           (heap_region_iterate g (G1FreeHumongousRegionClosure_init, h1))))
   \<and> cm_eagerly_reclaimed
         (snd (state_reached (EagerlyReclaimHumongousObjectsTask_do_work g w (t, h1))))
       = cm_eagerly_reclaimed (snd (state_reached
           (heap_region_iterate g (G1FreeHumongousRegionClosure_init, h1))))
   \<and> \<not> isl scenarioB_run
   \<and> map (\<lambda>r. region_type (region_at (snd (projr scenarioB_run)) r)) [0, 1, 2]
       = [FreeTag, FreeTag, StartsHumongousTag]
   \<and> cm_eagerly_reclaimed (snd (projr scenarioB_run)) = [0]
   \<and> task_humongous_regions_reclaimed (fst (projr scenarioB_run)) = 2
   \<and> task_bytes_freed (fst (projr scenarioB_run)) = 150
   \<and> map (\<lambda>i. work_items (snd (projr scenarioB_run)) (0, i))
         [EagerlyReclaimNumTotal, EagerlyReclaimNumCandidates, EagerlyReclaimNumReclaimed]
       = [Some 2, Some 1, Some 1]
   \<and> map (\<lambda>i. work_items (snd (projr scenarioB_run)) (1, i))
         [EagerlyReclaimNumTotal, EagerlyReclaimNumCandidates, EagerlyReclaimNumReclaimed]
       = [None, None, None]
   \<and> scenarioB_run_unreported = Inr (EagerlyReclaimHumongousObjectsTask_new, scenarioB_heap)"
proof -
  have run: "run_serial_tasks g ext
        (serial_tasks (fst (G1PostEvacuateCollectionSetCleanupTask2 g sw efr h))) (t, h1)
       = (if has_humongous_reclaim_candidates h
          then EagerlyReclaimHumongousObjectsTask_do_work g 0
                 (t, if COMPILER2_OR_JVMCI g then ext new_UpdateDerivedPointersTask 0 h1 else h1)
          else Inr (t, if COMPILER2_OR_JVMCI g then ext new_UpdateDerivedPointersTask 0 h1
                       else h1))"
    for g ext sw efr h t h1
  proof -
    have last: "(case x of Inl e \<Rightarrow> Inl e | Inr st \<Rightarrow> run_serial_tasks g ext [] st) = x"
      for x :: "SerialState vm"
      by (cases x) simp_all
    show ?thesis
      by (simp add: serial_tasks_of_cleanup2 subtask_do_work_def last)
  qed
  have registered: "(new_EagerlyReclaimHumongousObjectsTask
      \<in> set (serial_tasks (fst (G1PostEvacuateCollectionSetCleanupTask2 g sw efr h))))
     = has_humongous_reclaim_candidates h"
    "new_EagerlyReclaimHumongousObjectsTask
      \<notin> set (parallel_tasks (fst (G1PostEvacuateCollectionSetCleanupTask2 g sw efr h)))"
    "new_EagerlyReclaimHumongousObjectsTask
      \<notin> set (serial_tasks (G1PostEvacuateCollectionSetCleanupTask1 efr h)
             @ parallel_tasks (G1PostEvacuateCollectionSetCleanupTask1 efr h))"
    by (simp_all add: batch_defs)
  have flags: "has_humongous_reclaim_candidates scenarioB_heap"
    "COMPILER2_OR_JVMCI scenarioA_globals"
    "num_humongous_objects scenarioB_heap = 2"
    "num_humongous_reclaim_candidates scenarioB_heap = 1"
    "work_items scenarioB_heap = (\<lambda>k. None)"
    by (simp_all add: scenarioB_heap_def empty_heap_def scenarioA_globals_def)
  have b: "scenarioB_run =
      Inr (\<lparr>task_humongous_regions_reclaimed = 2, task_bytes_freed = 150\<rparr>,
           scenarioB_heap\<lparr>cm_eagerly_reclaimed := [0],
             region_at := (\<lambda>r. if r \<in> {0, 1} then reclaimed_region (region_at scenarioB_heap r)
                                else region_at scenarioB_heap r),
             work_items := (\<lambda>k. if k = (0, EagerlyReclaimNumReclaimed) then Some 1
                                 else if k = (0, EagerlyReclaimNumCandidates) then Some 1
                                 else if k = (0, EagerlyReclaimNumTotal) then Some 2
                                 else None)\<rparr>)"
    unfolding scenarioB_run_def
    by (simp add: run flags no_external_work_def EagerlyReclaimHumongousObjectsTask_do_work_def
        scenarioB_scan record_work_item_def Let_def fun_eq_iff
        EagerlyReclaimHumongousObjectsTask_new_def)
  have types: "region_type (region_at scenarioB_heap 2) = StartsHumongousTag"
    by (simp add: scenarioB_heap_def empty_heap_def humongous_region_def)
  have example: "\<not> isl scenarioB_run"
    "map (\<lambda>r. region_type (region_at (snd (projr scenarioB_run)) r)) [0, 1, 2]
       = [FreeTag, FreeTag, StartsHumongousTag]"
    "cm_eagerly_reclaimed (snd (projr scenarioB_run)) = [0]"
    "task_humongous_regions_reclaimed (fst (projr scenarioB_run)) = 2"
    "task_bytes_freed (fst (projr scenarioB_run)) = 150"
    "map (\<lambda>i. work_items (snd (projr scenarioB_run)) (0, i))
         [EagerlyReclaimNumTotal, EagerlyReclaimNumCandidates, EagerlyReclaimNumReclaimed]
       = [Some 2, Some 1, Some 1]"
    "map (\<lambda>i. work_items (snd (projr scenarioB_run)) (1, i))
         [EagerlyReclaimNumTotal, EagerlyReclaimNumCandidates, EagerlyReclaimNumReclaimed]
       = [None, None, None]"
    by (simp_all add: b types reclaimed_region_def hr_clear_def)
  have unreported: "scenarioB_run_unreported
      = Inr (EagerlyReclaimHumongousObjectsTask_new, scenarioB_heap)"
    unfolding scenarioB_run_unreported_def
    by (simp add: run flags no_external_work_def)
  show ?thesis
    using registered run[of g ext sw efr h t h1]
      EagerlyReclaimHumongousObjectsTask_do_work_reached[of g w t h1] example unreported
    by blast
qed

end
